theory Spec2Isabelle
  imports Main "HOL-Library.Sublist" "HOL-Library.Multiset" "HOL-Library.Char_ord"
    "HOL-Library.List_Lexorder"
begin

section \<open>Python strings\<close>

text \<open>
  A Python \<^verbatim>\<open>str\<close> is modelled as a \<open>string\<close>, one \<open>char\<close> per code point; the model covers
  the code points below 256.  The operations below are the ones the extractor and the
  envelope parsers call.
\<close>

text \<open>\<^verbatim>\<open>c.isspace()\<close>: tab to carriage return, the four separators 28 to 31, space, 133, 160.\<close>

definition is_space :: "char \<Rightarrow> bool" where
  "is_space c \<longleftrightarrow>
     (let n = (of_char c :: nat)
      in (9 \<le> n \<and> n \<le> 13) \<or> (28 \<le> n \<and> n \<le> 32) \<or> n = 133 \<or> n = 160)"

text \<open>\<^verbatim>\<open>s.strip()\<close>\<close>

definition strip :: "string \<Rightarrow> string" where
  "strip s = rev (dropWhile is_space (rev (dropWhile is_space s)))"

text \<open>
  The index of the first occurrence of \<open>sub\<close> in \<open>s\<close>, if there is one; \<^verbatim>\<open>sub in s\<close>; and
  \<^verbatim>\<open>s.find(sub, start)\<close> for \<open>0 \<le> start\<close>, which is \<open>-1\<close> when \<open>sub\<close> does not occur at or
  after \<open>start\<close>.
\<close>

fun find_at :: "string \<Rightarrow> string \<Rightarrow> nat option" where
  "find_at sub [] = (if sub = [] then Some 0 else None)"
| "find_at sub (c # cs) =
     (if prefix sub (c # cs) then Some 0 else map_option Suc (find_at sub cs))"

definition contains :: "string \<Rightarrow> string \<Rightarrow> bool" where
  "contains sub s \<longleftrightarrow> find_at sub s \<noteq> None"

definition py_find :: "string \<Rightarrow> string \<Rightarrow> int \<Rightarrow> int" where
  "py_find s sub start =
     (case find_at sub (drop (nat start) s) of
        None \<Rightarrow> - 1
      | Some i \<Rightarrow> start + int i)"

text \<open>\<^verbatim>\<open>s[start:end]\<close> for \<open>0 \<le> start\<close> and \<open>0 \<le> end\<close>; empty when \<open>end \<le> start\<close>.\<close>

definition slice :: "string \<Rightarrow> int \<Rightarrow> int \<Rightarrow> string" where
  "slice s start end = take (nat (end - start)) (drop (nat start) s)"

text \<open>
  \<^verbatim>\<open>s.lower()\<close> on the code points below 256: the letters \<open>A\<close> to \<open>Z\<close> and the capital
  letters 192 to 222 (but not the multiplication sign, 215) move up by 32.
\<close>

definition lower_char :: "char \<Rightarrow> char" where
  "lower_char c =
     (let n = (of_char c :: nat)
      in if (65 \<le> n \<and> n \<le> 90) \<or> (192 \<le> n \<and> n \<le> 222 \<and> n \<noteq> 215) then char_of (n + 32) else c)"

definition lower :: "string \<Rightarrow> string" where
  "lower s = map lower_char s"

text \<open>\<^verbatim>\<open>s.split(sep)\<close> for a separator of one character, and \<^verbatim>\<open>sep.join(lines)\<close>.\<close>

definition newline :: char where
  "newline = CHR 0x0A"

fun split_on :: "char \<Rightarrow> string \<Rightarrow> string list" where
  "split_on sep [] = [[]]"
| "split_on sep (c # cs) =
     (if c = sep then [] # split_on sep cs
      else (case split_on sep cs of
              [] \<Rightarrow> [[c]]
            | l # ls \<Rightarrow> (c # l) # ls))"

fun join :: "char \<Rightarrow> string list \<Rightarrow> string" where
  "join sep [] = []"
| "join sep [l] = l"
| "join sep (l # ls) = l @ sep # join sep ls"

section \<open>Exceptions\<close>

text \<open>
  A raised exception is a value: its class and \<^verbatim>\<open>str(exc)\<close>.  \<open>UpstreamError\<close> stands for
  what the generation service raises.  \<^verbatim>\<open>json.JSONDecodeError\<close> is a subclass of
  \<^verbatim>\<open>ValueError\<close>; \<open>ValueError\<close> here is a \<^verbatim>\<open>ValueError\<close> that is not a decode error, so that
  \<^verbatim>\<open>except json.JSONDecodeError\<close> catches the one and not the other.  Keyboard interrupts and
  other exceptions outside \<^verbatim>\<open>Exception\<close> are not modelled.
\<close>

datatype exn =
  TypeError string
| AttributeError string
| RuntimeError string
| ValueError string
| JSONDecodeError string
| RecursionError string
| UpstreamError string

fun exn_str :: "exn \<Rightarrow> string" where
  "exn_str (TypeError m) = m"
| "exn_str (AttributeError m) = m"
| "exn_str (RuntimeError m) = m"
| "exn_str (ValueError m) = m"
| "exn_str (JSONDecodeError m) = m"
| "exn_str (RecursionError m) = m"
| "exn_str (UpstreamError m) = m"

text \<open>The \<^verbatim>\<open>AttributeError\<close> of \<^verbatim>\<open>obj.attr\<close> on an object of a type without that attribute.\<close>

definition quoted :: "string \<Rightarrow> string" where
  "quoted s = CHR 0x27 # s @ [CHR 0x27]"

definition no_attribute :: "string \<Rightarrow> string \<Rightarrow> exn" where
  "no_attribute type_name attr =
     AttributeError (quoted type_name @ '' object has no attribute '' @ quoted attr)"

section \<open>JSON values\<close>

text \<open>
  What \<^verbatim>\<open>json.loads\<close> returns and what the agents build with dictionary literals.  An
  object keeps its members as an association list in document order.  Numbers are
  integers; floating point numbers are not modelled.
\<close>

datatype json =
  JNull
| JBool bool
| JNum int
| JStr string
| JArr "json list"
| JObj "(string \<times> json) list"

text \<open>
  \<^verbatim>\<open>json.loads(text)\<close> is a parameter of the model, of type \<open>string \<Rightarrow> exn + json\<close>:
  \<open>Inr v\<close> when it returns \<open>v\<close>; \<open>Inl (JSONDecodeError msg)\<close> when the text is not a JSON
  document; \<open>Inl e\<close> for whatever else it raises, as a \<^verbatim>\<open>ValueError\<close> for an integer literal
  of more digits than the interpreter converts (4300 by default) and a \<^verbatim>\<open>RecursionError\<close> for
  a document nested too deep.
\<close>

type_synonym json_loads = "string \<Rightarrow> exn + json"

text \<open>\<^verbatim>\<open>d.get(key)\<close> on a dictionary \<open>d\<close>; \<open>None\<close> also stands for Python's \<^verbatim>\<open>None\<close>.\<close>

definition dict_get :: "(string \<times> json) list \<Rightarrow> string \<Rightarrow> json option" where
  "dict_get d key = map_of d key"

text \<open>Python's truth value of a JSON value.\<close>

fun truthy :: "json \<Rightarrow> bool" where
  "truthy JNull = False"
| "truthy (JBool b) = b"
| "truthy (JNum n) = (n \<noteq> 0)"
| "truthy (JStr s) = (s \<noteq> [])"
| "truthy (JArr xs) = (xs \<noteq> [])"
| "truthy (JObj d) = (d \<noteq> [])"

section \<open>The catalog document\<close>

text \<open>
  The tables of a catalog, as the discovery payload and \<^verbatim>\<open>catalog["tables"]\<close> carry them:
  \<^verbatim>\<open>{table_name, columns: [{name, type, nullable, default}], primary_key: [...],
   foreign_keys: [{constrained_columns, referred_table, referred_columns, options}],
   row_count}\<close>.
  The member \<^verbatim>\<open>referred_table\<close> of a foreign key is absent, \<^verbatim>\<open>null\<close> or a name:
  \<^verbatim>\<open>fk.get("referred_table")\<close> is \<^verbatim>\<open>None\<close> in the first two cases, and
  \<^verbatim>\<open>fk.get("referred_table", "")\<close> is the empty string in the first and \<^verbatim>\<open>None\<close> in the second.
  The other members are taken to be present with values of their types, but for
  \<^verbatim>\<open>row_count\<close>, a column's \<^verbatim>\<open>default\<close> and the \<^verbatim>\<open>ondelete\<close> option, which are options.  The
  sample values of a table are read by neither the fingerprint nor the orderer and are
  left out.
\<close>

datatype 'a member = Absent | Null | Present 'a

text \<open>\<^verbatim>\<open>d.get(key)\<close> and \<^verbatim>\<open>d.get(key, default)\<close> for such a member.\<close>

fun member_get :: "'a member \<Rightarrow> 'a option" where
  "member_get Absent = None"
| "member_get Null = None"
| "member_get (Present v) = Some v"

fun member_get_default :: "'a member \<Rightarrow> 'a \<Rightarrow> 'a option" where
  "member_get_default Absent d = Some d"
| "member_get_default Null d = None"
| "member_get_default (Present v) d = Some v"

record column =
  col_name :: string
  col_type :: string
  nullable :: bool
  col_default :: "string option"

record foreign_key =
  constrained_columns :: "string list"
  referred_table :: "string member"
  referred_columns :: "string list"
  ondelete :: "string option"

record table =
  table_name :: string
  columns :: "column list"
  primary_key :: "string list"
  foreign_keys :: "foreign_key list"
  row_count :: "int option"

section \<open>Code extractor (executor.py lines 348--370, schema\_analyzer.py lines 445--485)\<close>

definition fence :: string where
  "fence = ''```''"

definition python_fence :: string where
  "python_fence = ''```python''"

text \<open>
  \<^verbatim>\<open>
  if "```python" in response:
      start = response.find("```python") + len("```python")
      end = response.find("```", start)
      if end > start:
          return response[start:end].strip()
  \<close>
  \<open>None\<close> stands for falling through to the statements that follow.
\<close>

definition python_block :: "string \<Rightarrow> string option" where
  "python_block response =
     (if contains python_fence response then
        (let start = py_find response python_fence 0 + int (length python_fence);
             end = py_find response fence start
         in if end > start then Some (strip (slice response start end)) else None)
      else None)"

text \<open>
  \<^verbatim>\<open>
  if "```" in response:
      start = response.find("```") + 3
      newline_pos = response.find("\n", start)
      if newline_pos > start and newline_pos - start < 20:
          start = newline_pos + 1
      end = response.find("```", start)
      if end > start:
          return response[start:end].strip()
  \<close>
\<close>

definition any_block :: "string \<Rightarrow> string option" where
  "any_block response =
     (if contains fence response then
        (let start = py_find response fence 0 + 3;
             newline_pos = py_find response [newline] start;
             start = (if newline_pos > start \<and> newline_pos - start < 20 then newline_pos + 1 else start);
             end = py_find response fence start
         in if end > start then Some (strip (slice response start end)) else None)
      else None)"

text \<open>The worker's \<^verbatim>\<open>_extract_code\<close> (executor.py): the two blocks, else the stripped response.\<close>

definition worker_extract_code :: "string \<Rightarrow> string" where
  "worker_extract_code response =
     (if response = [] then []
      else (let response = strip response
            in case python_block response of
                 Some code \<Rightarrow> code
               | None \<Rightarrow>
                  (case any_block response of
                     Some code \<Rightarrow> code
                   | None \<Rightarrow> response)))"

text \<open>
  The schema analyzer's \<^verbatim>\<open>_extract_code\<close> goes on where no block was returned:
  \<^verbatim>\<open>
  lines = response.split('\n')
  code_lines = []
  in_code = False
  for line in lines:
      stripped = line.strip()
      if not in_code:
          if stripped.startswith(('import ', 'from ', 'def ', 'class ', '#', 'db_', 'DB_',
                                  'config', 'CONFIG')):
              in_code = True
          elif '=' in stripped and not stripped.startswith(('Note:', 'Warning:', 'Error:')):
              in_code = True
      if in_code:
          code_lines.append(line)
  return '\n'.join(code_lines).strip() if code_lines else response
  \<close>
\<close>

definition code_starts :: "string list" where
  "code_starts = [''import '', ''from '', ''def '', ''class '', ''#'', ''db_'', ''DB_'',
     ''config'', ''CONFIG'']"

definition prose_starts :: "string list" where
  "prose_starts = [''Note:'', ''Warning:'', ''Error:'']"

definition starts_code :: "string \<Rightarrow> bool" where
  "starts_code stripped \<longleftrightarrow>
     list_ex (\<lambda>p. prefix p stripped) code_starts
     \<or> (CHR ''='' \<in> set stripped \<and> \<not> list_ex (\<lambda>p. prefix p stripped) prose_starts)"

fun scan_lines :: "bool \<Rightarrow> string list \<Rightarrow> string list" where
  "scan_lines in_code [] = []"
| "scan_lines in_code (line # lines) =
     (let in_code = (in_code \<or> starts_code (strip line))
      in (if in_code then [line] else []) @ scan_lines in_code lines)"

definition analyzer_extract_code :: "string \<Rightarrow> string" where
  "analyzer_extract_code response =
     (if response = [] then []
      else (let response = strip response
            in case python_block response of
                 Some code \<Rightarrow> code
               | None \<Rightarrow>
                  (case any_block response of
                     Some code \<Rightarrow> code
                   | None \<Rightarrow>
                      (let code_lines = scan_lines False (split_on newline response)
                       in if code_lines \<noteq> [] then strip (join newline code_lines) else response))))"

text \<open>
  The extractor as its description reads, step by step, on the text cut at its markers
  rather than on indices.  \<open>split_at sep s\<close> cuts \<open>s\<close> at the first occurrence of \<open>sep\<close>
  into what stands before and what stands after it.
\<close>

fun split_at :: "string \<Rightarrow> string \<Rightarrow> (string \<times> string) option" where
  "split_at sep [] = (if sep = [] then Some ([], []) else None)"
| "split_at sep (c # cs) =
     (if prefix sep (c # cs) then Some ([], drop (length sep) (c # cs))
      else map_option (\<lambda>(before, after). (c # before, after)) (split_at sep cs))"

text \<open>
  The interior of a block whose opening fence has just been read: the text up to the next
  fence, stripped, if there is a next fence and the text before it is not empty.
\<close>

definition interior :: "string \<Rightarrow> string option" where
  "interior after =
     (case split_at fence after of
        None \<Rightarrow> None
      | Some (body, rest) \<Rightarrow> if body \<noteq> [] then Some (strip body) else None)"

text \<open>
  Skipping a language tag: when the text right after the opening fence runs to a line end
  within fewer than 20 characters, and is not empty, the block starts on the next line.
\<close>

definition skip_tag :: "string \<Rightarrow> string" where
  "skip_tag after =
     (case split_at [newline] after of
        None \<Rightarrow> after
      | Some (tag, rest) \<Rightarrow> if tag \<noteq> [] \<and> length tag < 20 then rest else after)"

text \<open>
  (a) a block fenced with the \<^verbatim>\<open>python\<close> tag; (b) else any fenced block, past a short tag
  line; (c) only with \<open>heuristic\<close>: else the lines from the first one that looks like code;
  (d) else the text.  The text is stripped first, and so is what (a), (b) and (c) return.
\<close>

definition extract_steps :: "bool \<Rightarrow> string \<Rightarrow> string" where
  "extract_steps heuristic text =
     (if text = [] then []
      else (let text = strip text
            in case Option.bind (split_at python_fence text) (\<lambda>(before, after). interior after) of
                 Some code \<Rightarrow> code
               | None \<Rightarrow>
                  (case Option.bind (split_at fence text) (\<lambda>(before, after). interior (skip_tag after)) of
                     Some code \<Rightarrow> code
                   | None \<Rightarrow>
                      (if heuristic then
                         (case dropWhile (\<lambda>line. \<not> starts_code (strip line)) (split_on newline text) of
                            [] \<Rightarrow> text
                          | code_lines \<Rightarrow> strip (join newline code_lines))
                       else text))))"

section \<open>Result envelope parser (executor.py, \_parse\_task\_result, lines 372--390)\<close>

definition RESULT_START :: string where
  "RESULT_START = ''TASK_RESULT_START''"

definition RESULT_END :: string where
  "RESULT_END = ''TASK_RESULT_END''"

text \<open>
  \<^verbatim>\<open>
  start_idx = raw_output.find(self.RESULT_START)
  end_idx = raw_output.find(self.RESULT_END)
  if start_idx == -1 or end_idx == -1 or end_idx <= start_idx:
      lower_output = raw_output.lower()
      if "error" in lower_output or "exception" in lower_output or "traceback" in lower_output:
          return {"success": False, "error": f"Execution error: {raw_output[:1000]}"}
      if "success" in lower_output or "completed" in lower_output or "loaded" in lower_output:
          return {"success": True, "message": "Task appears successful based on output",
                  "data": {"raw_output": raw_output[:500]}}
      return {"success": False, "error": f"No result markers found. Output: {raw_output[:500]}"}
  json_text = raw_output[start_idx + len(self.RESULT_START):end_idx].strip()
  try:
      return json.loads(json_text)
  except json.JSONDecodeError as e:
      return {"success": False,
              "error": f"Failed to parse result JSON: {e}. Raw: {json_text[:300]}"}
  \<close>
  The result is the dictionary returned, or the exception that \<^verbatim>\<open>json.loads\<close> raised and
  \<^verbatim>\<open>except json.JSONDecodeError\<close> did not catch.
\<close>

definition parse_task_result :: "json_loads \<Rightarrow> string \<Rightarrow> exn + json" where
  "parse_task_result loads raw_output =
     (let start_idx = py_find raw_output RESULT_START 0;
          end_idx = py_find raw_output RESULT_END 0
      in if start_idx = - 1 \<or> end_idx = - 1 \<or> end_idx \<le> start_idx then
           (let lower_output = lower raw_output
            in if contains ''error'' lower_output \<or> contains ''exception'' lower_output
                  \<or> contains ''traceback'' lower_output
               then Inr (JObj [(''success'', JBool False),
                               (''error'', JStr (''Execution error: '' @ take 1000 raw_output))])
               else if contains ''success'' lower_output \<or> contains ''completed'' lower_output
                  \<or> contains ''loaded'' lower_output
               then Inr (JObj [(''success'', JBool True),
                               (''message'', JStr ''Task appears successful based on output''),
                               (''data'', JObj [(''raw_output'', JStr (take 500 raw_output))])])
               else Inr (JObj [(''success'', JBool False),
                               (''error'', JStr (''No result markers found. Output: '' @ take 500 raw_output))]))
         else
           (let json_text = strip (slice raw_output (start_idx + int (length RESULT_START)) end_idx)
            in case loads json_text of
                 Inr v \<Rightarrow> Inr v
               | Inl (JSONDecodeError e) \<Rightarrow>
                   Inr (JObj [(''success'', JBool False),
                              (''error'', JStr (''Failed to parse result JSON: '' @ e @ ''. Raw: ''
                                                 @ take 300 json_text))])
               | Inl raised \<Rightarrow> Inl raised))"

text \<open>
  The two tiers in words.  \<open>text_between i j raw\<close> is the text after a start marker that
  begins at \<open>i\<close> up to an end marker that begins at \<open>j\<close>, stripped.  \<open>mentions kw raw\<close>: some
  stretch of \<open>raw\<close> reads \<open>kw\<close> when put in lower case.
\<close>

definition text_between :: "nat \<Rightarrow> nat \<Rightarrow> string \<Rightarrow> string" where
  "text_between i j raw =
     strip (take (j - (i + length RESULT_START)) (drop (i + length RESULT_START) raw))"


definition failure :: "string \<Rightarrow> json" where
  "failure msg = JObj [(''success'', JBool False), (''error'', JStr msg)]"

definition soft_success :: "string \<Rightarrow> json" where
  "soft_success raw =
     JObj [(''success'', JBool True),
           (''message'', JStr ''Task appears successful based on output''),
           (''data'', JObj [(''raw_output'', JStr (take 500 raw))])]"

text \<open>A decoder that rejects every text with one message, for the inputs that are not JSON.\<close>

definition rejecting :: "string \<Rightarrow> json_loads" where
  "rejecting msg = (\<lambda>text. Inl (JSONDecodeError msg))"

text \<open>
  A decoder that knows one document: it returns \<open>v\<close> for \<open>text\<close> and rejects everything
  else.  \<open>success_text\<close> is the document \<^verbatim>\<open>{"success": true}\<close>.
\<close>

definition decoding :: "string \<Rightarrow> json \<Rightarrow> json_loads" where
  "decoding text v =
     (\<lambda>t. if t = text then Inr v else Inl (JSONDecodeError ''Expecting value: line 1 column 1 (char 0)''))"

definition success_text :: string where
  \<open>success_text = ''{"success": true}''\<close>

definition success_value :: json where
  "success_value = JObj [(''success'', JBool True)]"




section \<open>Fingerprint (schema\_analyzer.py, \_build\_fingerprint, lines 516--537)\<close>

text \<open>
  \<^verbatim>\<open>
  fingerprint = []
  for table in sorted(metadata, key=lambda t: t.get("table_name", "")):
      fk_signature = tuple(
          (fk.get("referred_table"),
           tuple(fk.get("constrained_columns", [])),
           tuple(fk.get("referred_columns", [])))
          for fk in table.get("foreign_keys", []))
      fingerprint.append(
          (table.get("table_name", ""), table.get("row_count"),
           tuple(col.get("name", "") for col in table.get("columns", [])),
           tuple(table.get("primary_key", [])),
           fk_signature))
  return tuple(fingerprint)
  \<close>
  Python's \<^verbatim>\<open>sorted\<close> is stable and compares strings code point by code point; so does
  \<open>sort_key\<close> on \<open>string\<close> with the lexicographic order of lists over the order of
  characters.
\<close>

type_synonym fk_signature = "string option \<times> string list \<times> string list"

type_synonym table_entry =
  "string \<times> int option \<times> string list \<times> string list \<times> fk_signature list"

definition fk_signature :: "foreign_key \<Rightarrow> fk_signature" where
  "fk_signature fk = (member_get (referred_table fk), constrained_columns fk, referred_columns fk)"

definition table_entry :: "table \<Rightarrow> table_entry" where
  "table_entry t =
     (table_name t, row_count t, map col_name (columns t), primary_key t,
      map fk_signature (foreign_keys t))"

definition build_fingerprint :: "table list \<Rightarrow> table_entry list" where
  "build_fingerprint metadata = map table_entry (sort_key table_name metadata)"

text \<open>Exchanging the elements at two positions of a list: a reordering of two elements.\<close>

definition swap :: "nat \<Rightarrow> nat \<Rightarrow> 'a list \<Rightarrow> 'a list" where
  "swap a b xs = xs[a := xs ! b, b := xs ! a]"

text \<open>
  Small inputs.  \<open>two_same_name\<close> holds two tables that share a name and differ in their row
  count.  \<open>orders\<close> has two columns, a two-column primary key and two foreign keys;
  \<open>audit\<close> has two foreign keys that differ only in their \<^verbatim>\<open>ondelete\<close> option and two
  columns that differ only in their type.
\<close>

definition counted :: "string \<Rightarrow> int \<Rightarrow> table" where
  "counted n c = \<lparr>table_name = n, columns = [], primary_key = [], foreign_keys = [],
     row_count = Some c\<rparr>"

definition two_same_name :: "table list" where
  "two_same_name = [counted ''a'' 1, counted ''a'' 2]"

definition orders :: table where
  "orders =
     \<lparr>table_name = ''orders'',
      columns = [\<lparr>col_name = ''id'', col_type = ''int'', nullable = False, col_default = None\<rparr>,
                 \<lparr>col_name = ''customer'', col_type = ''int'', nullable = True, col_default = None\<rparr>],
      primary_key = [''id'', ''customer''],
      foreign_keys = [\<lparr>constrained_columns = [''customer''], referred_table = Present ''customers'',
                        referred_columns = [''id''], ondelete = None\<rparr>,
                      \<lparr>constrained_columns = [''id''], referred_table = Present ''items'',
                        referred_columns = [''order''], ondelete = None\<rparr>],
      row_count = Some 10\<rparr>"

definition audit :: table where
  "audit =
     \<lparr>table_name = ''audit'',
      columns = [\<lparr>col_name = ''x'', col_type = ''int'', nullable = True, col_default = None\<rparr>,
                 \<lparr>col_name = ''x'', col_type = ''text'', nullable = True, col_default = None\<rparr>],
      primary_key = [],
      foreign_keys = [\<lparr>constrained_columns = [''x''], referred_table = Present ''orders'',
                        referred_columns = [''id''], ondelete = Some ''CASCADE''\<rparr>,
                      \<lparr>constrained_columns = [''x''], referred_table = Present ''orders'',
                        referred_columns = [''id''], ondelete = Some ''SET NULL''\<rparr>],
      row_count = Some 3\<rparr>"

section \<open>Convergence detector (schema\_analyzer.py, analyze\_schema, lines 229--236)\<close>

text \<open>
  The three variables of the discovery loop that the stability check reads and writes:
  \<^verbatim>\<open>prev_fingerprint\<close> (initially \<^verbatim>\<open>None\<close>), \<^verbatim>\<open>stable_rounds\<close> (initially 0) and
  \<^verbatim>\<open>satisfied\<close> (initially \<^verbatim>\<open>False\<close>).  The fingerprint type is left open here; the
  comparison \<^verbatim>\<open>fingerprint == prev_fingerprint\<close> is false while the previous one is
  \<^verbatim>\<open>None\<close>, because a fingerprint is a tuple.
\<close>

record 'f conv_state =
  prev_fingerprint :: "'f option"
  stable_rounds :: int
  satisfied :: bool

definition conv_init :: "'f conv_state" where
  "conv_init = \<lparr>prev_fingerprint = None, stable_rounds = 0, satisfied = False\<rparr>"

text \<open>
  \<^verbatim>\<open>
  if fingerprint == prev_fingerprint:
      stable_rounds += 1
  else:
      stable_rounds = 1
  prev_fingerprint = fingerprint
  satisfied = stable_rounds >= self.stable_rounds_required
  \<close>
\<close>

definition check_stability :: "int \<Rightarrow> 'f \<Rightarrow> 'f conv_state \<Rightarrow> 'f conv_state" where
  "check_stability required fp st =
     (let sr = (if Some fp = prev_fingerprint st then stable_rounds st + 1 else 1)
      in \<lparr>prev_fingerprint = Some fp, stable_rounds = sr, satisfied = (required \<le> sr)\<rparr>)"

text \<open>Several rounds in a row, each delivering one fingerprint.\<close>

definition check_rounds :: "int \<Rightarrow> 'f list \<Rightarrow> 'f conv_state \<Rightarrow> 'f conv_state" where
  "check_rounds required fps st = foldl (\<lambda>s fp. check_stability required fp s) st fps"

section \<open>Dependency orderer (executor.py, \_build\_mega\_tasks, lines 432--456)\<close>

text \<open>
  \<^verbatim>\<open>
  deps = set()
  for fk in fks:
      ref_table = fk.get("referred_table")
      if ref_table and ref_table != table_name:
          deps.add(ref_table)
  \<close>
  \<^verbatim>\<open>ref_table\<close> is falsy when it is \<^verbatim>\<open>None\<close> or the empty string.
\<close>

definition add_dep :: "string \<Rightarrow> foreign_key \<Rightarrow> string set \<Rightarrow> string set" where
  "add_dep tname fk deps =
     (case member_get (referred_table fk) of
        None \<Rightarrow> deps
      | Some ref_table \<Rightarrow> if ref_table \<noteq> [] \<and> ref_table \<noteq> tname then insert ref_table deps else deps)"

definition deps_of :: "table \<Rightarrow> string set" where
  "deps_of t = fold (add_dep (table_name t)) (foreign_keys t) {}"

text \<open>
  \<^verbatim>\<open>table_deps[table_name] = deps\<close> for each table in turn: a dictionary, in which a later
  table of the same name replaces the dependency set of an earlier one.
\<close>

definition table_deps :: "table list \<Rightarrow> (string \<rightharpoonup> string set)" where
  "table_deps tables = fold (\<lambda>t m. m(table_name t \<mapsto> deps_of t)) tables Map.empty"

text \<open>
  \<^verbatim>\<open>table_deps[t]\<close> for a key \<open>t\<close> of the dictionary.  The loop only ever looks up members
  of \<^verbatim>\<open>remaining\<close>, which are keys, so the \<^verbatim>\<open>KeyError\<close> of a missing key cannot arise; the
  model answers the empty set there.
\<close>

definition lookup_deps :: "(string \<rightharpoonup> string set) \<Rightarrow> string \<Rightarrow> string set" where
  "lookup_deps m t = (case m t of Some deps \<Rightarrow> deps | None \<Rightarrow> {})"

text \<open>
  \<^verbatim>\<open>
  ordered_tables = []
  remaining = set(table_deps.keys())
  while remaining:
      for t in list(remaining):
          if not (table_deps[t] & remaining):
              ordered_tables.append(t)
              remaining.remove(t)
              break
      else:
          ordered_tables.extend(remaining)
          break
  \<close>
  \<^verbatim>\<open>remaining\<close> is a Python set of strings.  The order in which \<^verbatim>\<open>list(remaining)\<close> and
  \<^verbatim>\<open>extend(remaining)\<close> walk it is the order of the set's hash table, which the hashes of
  the names fix and the language does not specify; removing a member leaves the others
  where they are.  The model therefore carries \<^verbatim>\<open>remaining\<close> as the list of its members
  in iteration order: \<^verbatim>\<open>for ... if ... break\<close> takes the first member of that list with
  no dependency left in it, and the \<^verbatim>\<open>else\<close> branch of the \<^verbatim>\<open>for\<close> appends the list as
  it stands.
\<close>

definition ready :: "(string \<Rightarrow> string set) \<Rightarrow> string list \<Rightarrow> string \<Rightarrow> bool" where
  "ready deps remaining t \<longleftrightarrow> deps t \<inter> set remaining = {}"

function topo_loop :: "(string \<Rightarrow> string set) \<Rightarrow> string list \<Rightarrow> string list \<Rightarrow> string list" where
  "topo_loop deps remaining ordered_tables =
     (if remaining = [] then ordered_tables
      else (case find (ready deps remaining) remaining of
              Some t \<Rightarrow> topo_loop deps (removeAll t remaining) (ordered_tables @ [t])
            | None \<Rightarrow> ordered_tables @ remaining))"
  by pat_completeness auto
termination
proof (relation "measure (\<lambda>(deps, remaining, ordered_tables). length remaining)")
  show "wf (measure (\<lambda>(deps, remaining, ordered_tables). length remaining))"
    by simp
next
  fix deps :: "string \<Rightarrow> string set" and remaining ordered_tables :: "string list" and t
  assume "find (ready deps remaining) remaining = Some t"
  then have "t \<in> set remaining"
    by (auto simp add: find_Some_iff)
  then have "length (removeAll t remaining) < length remaining"
    by (simp add: length_removeAll_less)
  then show "((deps, removeAll t remaining, ordered_tables @ [t]), (deps, remaining, ordered_tables))
      \<in> measure (\<lambda>(deps, remaining, ordered_tables). length remaining)"
    by simp
qed

declare topo_loop.simps [simp del]

text \<open>
  An iteration order of the set built from the dictionary's keys: every key once, in some
  order.
\<close>

definition set_order :: "table list \<Rightarrow> string list \<Rightarrow> bool" where
  "set_order tables order \<longleftrightarrow> distinct order \<and> set order = set (map table_name tables)"

definition ordered_tables_of :: "string list \<Rightarrow> table list \<Rightarrow> string list" where
  "ordered_tables_of order tables = topo_loop (lookup_deps (table_deps tables)) order []"

text \<open>
  \<open>precedes xs d u\<close>: \<open>u\<close> occurs in \<open>xs\<close> and \<open>d\<close> occurs before the first occurrence of
  \<open>u\<close>.
\<close>

definition precedes :: "'a list \<Rightarrow> 'a \<Rightarrow> 'a \<Rightarrow> bool" where
  "precedes xs d u \<longleftrightarrow> u \<in> set xs \<and> d \<in> set (takeWhile (\<lambda>x. x \<noteq> u) xs)"

text \<open>
  The dependency graph of the catalog: an edge from a table to each table it depends on
  that is itself in the catalog.
\<close>

definition dep_edges :: "table list \<Rightarrow> (string \<times> string) set" where
  "dep_edges tables =
     {(d, u). u \<in> set (map table_name tables) \<and> d \<in> set (map table_name tables) \<and>
              d \<in> lookup_deps (table_deps tables) u}"

text \<open>
  Two small catalogs.  \<open>mk_table n refs\<close> is a table named \<open>n\<close> with one foreign key to
  each table of \<open>refs\<close>.  In \<open>chain_catalog\<close>, \<open>B\<close> refers to \<open>A\<close> and \<open>C\<close> to \<open>B\<close>; in
  \<open>cycle_catalog\<close>, \<open>A\<close> and \<open>B\<close> refer to each other and \<open>C\<close> stands alone.
\<close>

definition mk_table :: "string \<Rightarrow> string list \<Rightarrow> table" where
  "mk_table n refs =
     \<lparr>table_name = n, columns = [], primary_key = [],
      foreign_keys = map (\<lambda>r. \<lparr>constrained_columns = [], referred_table = Present r,
                                 referred_columns = [], ondelete = None\<rparr>) refs,
      row_count = None\<rparr>"

definition chain_catalog :: "table list" where
  "chain_catalog = [mk_table ''A'' [], mk_table ''B'' [''A''], mk_table ''C'' [''B'']]"

definition cycle_catalog :: "table list" where
  "cycle_catalog = [mk_table ''A'' [''B''], mk_table ''B'' [''A''], mk_table ''C'' []]"

section \<open>The outside world: oracle and kernel session\<close>

text \<open>\<^verbatim>\<open>SimpleLLMMessage(role, content)\<close> and the dictionaries \<^verbatim>\<open>{"role": ..., "content": ...}\<close>.\<close>

record message =
  role :: string
  content :: string

text \<open>
  What the agents call and do not implement, as functions on a state \<open>'w\<close> of the outside
  world that each call may change:
  \<^item> \<open>llm_create\<close>: \<^verbatim>\<open>llm_client.create(messages, max_tokens=...)\<close> followed by reading the
    reply's content as a string; it may raise (transport or protocol failure);
  \<^item> \<open>kernel_start\<close>: \<^verbatim>\<open>JupyterKernelSession.start\<close> on a session that is not started; it
    may raise (the kernel does not become ready);
  \<^item> \<open>kernel_run\<close>: \<^verbatim>\<open>JupyterKernelSession.execute(code)\<close> on a started session; it returns
    the collected output or raises (an error message of the kernel, a timeout);
  \<^item> \<open>json_loads\<close>: \<^verbatim>\<open>json.loads\<close>;
  \<^item> \<open>py_repr\<close>: \<^verbatim>\<open>str(v)\<close> for a JSON value that is not a string;
  \<^item> the wording of the prompts, which is a function of the task alone:
    \<open>system_prompt\<close> (executor.py lines 270--321), \<open>first_request\<close> (line 328) and
    \<open>fix_request\<close> (line 340, as a function of the error context).
  Writing the per-attempt logs and the reports to disk is left out: the model takes these
  writes to succeed.
\<close>

record 'w env =
  llm_create :: "'w \<Rightarrow> message list \<Rightarrow> (exn + string) \<times> 'w"
  kernel_start :: "'w \<Rightarrow> exn option \<times> 'w"
  kernel_run :: "'w \<Rightarrow> string \<Rightarrow> (exn + string) \<times> 'w"
  json_loads :: json_loads
  py_repr :: "json \<Rightarrow> string"
  system_prompt :: "string \<Rightarrow> string"
  first_request :: "string \<Rightarrow> string"
  fix_request :: "string \<Rightarrow> string"

text \<open>
  The calls that reach a kernel session, in the order they are made.  \<open>StartFailed\<close> is a
  call of \<^verbatim>\<open>start\<close> that raised.
\<close>

datatype session_event = Started | StartFailed | Executed | Shutdown

text \<open>
  The state an agent runs in: the outside world, the agent's kernel session (\<open>None\<close>: no
  session object; \<open>Some started\<close>: a session object and its \<^verbatim>\<open>_started\<close> flag) and the
  session calls made so far.
\<close>

record 'w run_state =
  world :: 'w
  kernel :: "bool option"
  events :: "session_event list"

text \<open>
  \<^verbatim>\<open>JupyterKernelSession.start\<close>: nothing if already started.  \<^verbatim>\<open>WorkerAgent.start_kernel\<close>:
  \<^verbatim>\<open>if self.kernel is None: self.kernel = JupyterKernelSession(...); self.kernel.start()\<close>.
  The result is the exception raised, if any.
\<close>

definition session_start :: "'w env \<Rightarrow> 'w run_state \<Rightarrow> exn option \<times> 'w run_state" where
  "session_start env s =
     (if kernel s = Some True then (None, s)
      else (case kernel_start env (world s) of
              (Some e, w) \<Rightarrow> (Some e, s\<lparr>world := w, kernel := Some False, events := events s @ [StartFailed]\<rparr>)
            | (None, w) \<Rightarrow> (None, s\<lparr>world := w, kernel := Some True, events := events s @ [Started]\<rparr>)))"

definition start_kernel :: "'w env \<Rightarrow> 'w run_state \<Rightarrow> exn option \<times> 'w run_state" where
  "start_kernel env s = (if kernel s = None then session_start env (s\<lparr>kernel := Some False\<rparr>) else (None, s))"

text \<open>
  \<^verbatim>\<open>JupyterKernelSession.shutdown\<close> never raises: it swallows what stopping the channels and
  the kernel raises.  \<^verbatim>\<open>WorkerAgent.shutdown_kernel\<close>:
  \<^verbatim>\<open>if self.kernel: self.kernel.shutdown(); self.kernel = None\<close>.
\<close>

definition session_shutdown :: "'w run_state \<Rightarrow> 'w run_state" where
  "session_shutdown s = s\<lparr>kernel := Some False, events := events s @ [Shutdown]\<rparr>"

definition shutdown_kernel :: "'w run_state \<Rightarrow> 'w run_state" where
  "shutdown_kernel s = (if kernel s \<noteq> None then (session_shutdown s)\<lparr>kernel := None\<rparr> else s)"

text \<open>
  \<^verbatim>\<open>self.kernel.execute(code)\<close>: an \<^verbatim>\<open>AttributeError\<close> without a session object, the
  \<^verbatim>\<open>RuntimeError\<close> of line 40 on a session that is not started, the kernel's answer
  otherwise.
\<close>

definition session_execute :: "'w env \<Rightarrow> string \<Rightarrow> 'w run_state \<Rightarrow> (exn + string) \<times> 'w run_state" where
  "session_execute env code s =
     (case kernel s of
        None \<Rightarrow> (Inl (no_attribute ''NoneType'' ''execute''), s)
      | Some False \<Rightarrow> (Inl (RuntimeError ''Kernel session has not been started.''), s)
      | Some True \<Rightarrow>
          (case kernel_run env (world s) code of
             (r, w) \<Rightarrow> (r, s\<lparr>world := w, events := events s @ [Executed]\<rparr>)))"

section \<open>Worker: prompts and the retry loop (executor.py, lines 131--346)\<close>

text \<open>\<^verbatim>\<open>str(n)\<close> for a natural number and for an integer, \<^verbatim>\<open>xs[-n:]\<close> for \<open>0 < n\<close>, and a line
  break.\<close>

function str_nat :: "nat \<Rightarrow> string" where
  "str_nat n = (if n < 10 then [char_of (48 + n)] else str_nat (n div 10) @ [char_of (48 + n mod 10)])"
  by pat_completeness auto
termination
  by (relation "measure (\<lambda>n. n)") auto

declare str_nat.simps [simp del]

definition str_int :: "int \<Rightarrow> string" where
  "str_int i = (if i < 0 then CHR ''-'' # str_nat (nat (- i)) else str_nat (nat i))"

definition last_n :: "nat \<Rightarrow> 'a list \<Rightarrow> 'a list" where
  "last_n n xs = drop (length xs - n) xs"

definition nl :: string where
  "nl = [newline]"

text \<open>
  \<^verbatim>\<open>type(v).__name__\<close>, \<^verbatim>\<open>v[:n]\<close> (a \<^verbatim>\<open>TypeError\<close> unless \<open>v\<close> is a string or a list) and
  \<^verbatim>\<open>str(v)\<close> for a JSON value \<open>v\<close>.
\<close>

fun type_name :: "json \<Rightarrow> string" where
  "type_name JNull = ''NoneType''"
| "type_name (JBool b) = ''bool''"
| "type_name (JNum n) = ''int''"
| "type_name (JStr s) = ''str''"
| "type_name (JArr xs) = ''list''"
| "type_name (JObj d) = ''dict''"

fun py_slice :: "nat \<Rightarrow> json \<Rightarrow> exn + json" where
  "py_slice n (JStr s) = Inr (JStr (take n s))"
| "py_slice n (JArr xs) = Inr (JArr (take n xs))"
| "py_slice n (JObj d) = Inl (TypeError (''unhashable type: '' @ quoted ''slice''))"
| "py_slice n v = Inl (TypeError (quoted (type_name v) @ '' object is not subscriptable''))"

definition str_of :: "'w env \<Rightarrow> json \<Rightarrow> string" where
  "str_of env v = (case v of JStr s \<Rightarrow> s | _ \<Rightarrow> py_repr env v)"

definition truthy_opt :: "json option \<Rightarrow> bool" where
  "truthy_opt v = (case v of None \<Rightarrow> False | Some x \<Rightarrow> truthy x)"

text \<open>\<^verbatim>\<open>a or b or c\<close>, where \<open>a\<close> and \<open>b\<close> come from \<^verbatim>\<open>dict.get\<close> and \<open>c\<close> is a literal.\<close>

definition first_truthy :: "json option \<Rightarrow> json option \<Rightarrow> json \<Rightarrow> json" where
  "first_truthy a b c =
     (case a of
        Some x \<Rightarrow> if truthy x then x else (case b of Some y \<Rightarrow> if truthy y then y else c | None \<Rightarrow> c)
      | None \<Rightarrow> (case b of Some y \<Rightarrow> if truthy y then y else c | None \<Rightarrow> c))"

text \<open>
  The messages of a generation request (lines 323--341):
  \<^verbatim>\<open>
  messages = [SimpleLLMMessage(role="system", content=system_prompt)]
  if attempt == 1:
      messages.append(SimpleLLMMessage(role="user", content=f"Execute this task: ..."))
  else:
      for msg in conversation[-4:]:
          messages.append(SimpleLLMMessage(role=msg["role"], content=msg["content"]))
      if last_error:
          error_context = f"Previous attempt failed:\nError: {last_error[:1500]}"
          if last_output:
              error_context += f"\n\nOutput:\n{last_output[:800]}"
          messages.append(SimpleLLMMessage(role="user", content=f"{error_context}\n\nFix ..."))
  \<close>
  \<open>worker_window\<close> is the part of the conversation that goes into the request.
\<close>

definition worker_window :: "message list \<Rightarrow> message list" where
  "worker_window conversation = last_n 4 conversation"

definition error_context :: "'w env \<Rightarrow> json \<Rightarrow> string option \<Rightarrow> string" where
  "error_context env sliced_error last_output =
     ''Previous attempt failed:'' @ nl @ ''Error: '' @ str_of env sliced_error
     @ (case last_output of
          None \<Rightarrow> []
        | Some out \<Rightarrow> if out \<noteq> [] then nl @ nl @ ''Output:'' @ nl @ take 800 out else [])"

definition worker_messages ::
  "'w env \<Rightarrow> string \<Rightarrow> int \<Rightarrow> json option \<Rightarrow> string option \<Rightarrow> message list \<Rightarrow> exn + message list" where
  "worker_messages env task_description attempt last_error last_output conversation =
     (let messages = [\<lparr>role = ''system'', content = system_prompt env task_description\<rparr>]
      in if attempt = 1 then
           Inr (messages @ [\<lparr>role = ''user'', content = first_request env task_description\<rparr>])
         else
           (let messages = messages @ worker_window conversation
            in if truthy_opt last_error then
                 (case py_slice 1500 (the last_error) of
                    Inl e \<Rightarrow> Inl e
                  | Inr sliced \<Rightarrow>
                      Inr (messages @ [\<lparr>role = ''user'',
                             content = fix_request env (error_context env sliced last_output)\<rparr>]))
               else Inr messages))"

text \<open>
  \<^verbatim>\<open>_ask_llm_for_code\<close>: the request, the oracle's reply, the extractor.  An exception of the
  prompt construction or of the oracle leaves the function.
\<close>

definition ask_llm_for_code ::
  "'w env \<Rightarrow> string \<Rightarrow> int \<Rightarrow> json option \<Rightarrow> string option \<Rightarrow> message list \<Rightarrow> 'w run_state
     \<Rightarrow> (exn + string) \<times> 'w run_state" where
  "ask_llm_for_code env task_description attempt last_error last_output conversation s =
     (case worker_messages env task_description attempt last_error last_output conversation of
        Inl e \<Rightarrow> (Inl e, s)
      | Inr messages \<Rightarrow>
          (case llm_create env (world s) messages of
             (Inl e, w) \<Rightarrow> (Inl e, s\<lparr>world := w\<rparr>)
           | (Inr response_text, w) \<Rightarrow> (Inr (worker_extract_code response_text), s\<lparr>world := w\<rparr>)))"

text \<open>The local variables of \<^verbatim>\<open>execute_task\<close> that the loop reads and writes.\<close>

record task_state =
  conversation :: "message list"
  last_error :: "json option"
  last_output :: "string option"
  success :: bool
  result_data :: json
  attempt :: int

definition task_init :: task_state where
  "task_init = \<lparr>conversation = [], last_error = None, last_output = None, success = False,
     result_data = JObj [], attempt = 0\<rparr>"

text \<open>
  The repair exchange appended after a failed execution (lines 191--198): the failed code,
  cut at 2000 characters, and the error with the first 500 characters of the output.
\<close>

definition repair_exchange :: "'w env \<Rightarrow> string \<Rightarrow> task_state \<Rightarrow> task_state" where
  "repair_exchange env code st =
     st\<lparr>conversation := conversation st @
       [\<lparr>role = ''assistant'',
         content = ''Generated code:'' @ nl @ ''```python'' @ nl @ take 2000 code @ ''...'' @ nl @ ''```''\<rparr>,
        \<lparr>role = ''user'',
         content = ''Attempt '' @ str_int (attempt st) @ '' failed.'' @ nl
           @ ''Error: '' @ (case last_error st of None \<Rightarrow> ''None'' | Some e \<Rightarrow> str_of env e) @ nl
           @ ''Output: '' @ take 500 (case last_output st of None \<Rightarrow> [] | Some out \<Rightarrow> out)
           @ nl @ nl @ ''Please fix and try again.''\<rparr>]\<rparr>"

text \<open>How one pass through the loop body ended.\<close>

datatype attempt_end =
  Insufficient
| ExecutionRaised
| ReportedFailure
| Succeeded

text \<open>
  One pass through the body of \<^verbatim>\<open>for attempt in range(1, self.max_attempts + 1)\<close> (lines
  152--198).  The \<^verbatim>\<open>try\<close> covers the execution, the parsing and the reading of the
  envelope; \<^verbatim>\<open>except Exception\<close> turns what they raise into a failed attempt: what the
  kernel raises, what \<^verbatim>\<open>_parse_task_result\<close> lets through (\<^verbatim>\<open>result_data\<close> then keeps its
  value), and the \<^verbatim>\<open>AttributeError\<close> of \<^verbatim>\<open>result_data.get\<close> when the decoded document is not
  an object.
\<close>

definition attempt_body ::
  "'w env \<Rightarrow> string \<Rightarrow> int \<Rightarrow> task_state \<Rightarrow> 'w run_state
     \<Rightarrow> (exn + attempt_end \<times> task_state) \<times> 'w run_state" where
  "attempt_body env task_description n st0 s0 =
     (let st = st0\<lparr>attempt := n\<rparr>
      in case ask_llm_for_code env task_description n (last_error st) (last_output st) (conversation st) s0 of
           (Inl e, s) \<Rightarrow> (Inl e, s)
         | (Inr code, s) \<Rightarrow>
             if code = [] \<or> length (strip code) < 50 then
               (Inr (Insufficient,
                  st\<lparr>last_error := Some (JStr ''LLM returned empty or insufficient code''),
                     conversation := conversation st @
                       [\<lparr>role = ''user'',
                         content = ''Attempt '' @ str_int n
                           @ '': LLM returned empty or insufficient code. Please provide complete Python code.''\<rparr>]\<rparr>), s)
             else
               (case session_execute env code s of
                  (Inl e, s) \<Rightarrow>
                    (Inr (ExecutionRaised,
                       repair_exchange env code (st\<lparr>last_error := Some (JStr (exn_str e)), last_output := None\<rparr>)), s)
                | (Inr raw_output, s) \<Rightarrow>
                    (let st = st\<lparr>last_output := Some raw_output\<rparr>
                     in case parse_task_result (json_loads env) raw_output of
                          Inl e \<Rightarrow>
                            (Inr (ExecutionRaised,
                               repair_exchange env code
                                 (st\<lparr>last_error := Some (JStr (exn_str e)), last_output := None\<rparr>)), s)
                        | Inr (JObj d) \<Rightarrow>
                            (let st = st\<lparr>result_data := JObj d\<rparr>
                             in if truthy_opt (dict_get d ''success'') then
                                  (Inr (Succeeded, st\<lparr>success := True\<rparr>), s)
                                else
                                  (Inr (ReportedFailure,
                                     repair_exchange env code
                                       (st\<lparr>last_error := Some (first_truthy (dict_get d ''error'')
                                              (dict_get d ''message'') (JStr ''Task reported failure''))\<rparr>)), s))
                        | Inr v \<Rightarrow>
                            (Inr (ExecutionRaised,
                               repair_exchange env code
                                 (st\<lparr>result_data := v,
                                    last_error := Some (JStr (exn_str (no_attribute (type_name v) ''get''))),
                                    last_output := None\<rparr>)), s))))"

text \<open>
  The loop over the attempt numbers: \<^verbatim>\<open>break\<close> after a success, the next number after a
  failure, the end of the function for an exception.
\<close>

fun attempts_loop ::
  "'w env \<Rightarrow> string \<Rightarrow> int list \<Rightarrow> task_state \<Rightarrow> 'w run_state \<Rightarrow> (exn + task_state) \<times> 'w run_state" where
  "attempts_loop env task_description [] st s = (Inr st, s)"
| "attempts_loop env task_description (n # ns) st s =
     (case attempt_body env task_description n st s of
        (Inl e, s') \<Rightarrow> (Inl e, s')
      | (Inr (Succeeded, st'), s') \<Rightarrow> (Inr st', s')
      | (Inr (other, st'), s') \<Rightarrow> attempts_loop env task_description ns st' s')"

text \<open>
  The dictionary that \<^verbatim>\<open>execute_task\<close> returns (without \<^verbatim>\<open>task_dir\<close>):
  \<^verbatim>\<open>{"task_id": task_id, "success": success, "attempts": attempt, "result": result_data,
   "last_error": last_error if not success else None}\<close>.
\<close>

record task_outcome =
  out_task_id :: string
  out_success :: bool
  out_attempts :: int
  out_result :: json
  out_last_error :: "json option"

definition execute_task ::
  "'w env \<Rightarrow> int \<Rightarrow> string \<Rightarrow> string \<Rightarrow> 'w run_state \<Rightarrow> (exn + task_outcome) \<times> 'w run_state" where
  "execute_task env max_attempts task_id task_description s =
     (case attempts_loop env task_description [1..max_attempts] task_init s of
        (Inl e, s') \<Rightarrow> (Inl e, s')
      | (Inr st, s') \<Rightarrow>
          (Inr \<lparr>out_task_id = task_id, out_success = success st, out_attempts = attempt st,
                 out_result = result_data st,
                 out_last_error = (if \<not> success st then last_error st else None)\<rparr>, s'))"

text \<open>
  How the passes of a run ended, in order, up to a success or an exception; and the state
  after the last of them.
\<close>

fun attempt_ends ::
  "'w env \<Rightarrow> string \<Rightarrow> int list \<Rightarrow> task_state \<Rightarrow> 'w run_state \<Rightarrow> attempt_end list" where
  "attempt_ends env task_description [] st s = []"
| "attempt_ends env task_description (n # ns) st s =
     (case attempt_body env task_description n st s of
        (Inl e, s') \<Rightarrow> []
      | (Inr (Succeeded, st'), s') \<Rightarrow> [Succeeded]
      | (Inr (other, st'), s') \<Rightarrow> other # attempt_ends env task_description ns st' s')"

section \<open>A small outside world\<close>

text \<open>
  For concrete runs: the oracle always answers with the same line of code, long enough to
  be executed; the state of the world counts the executions, and \<open>answers k\<close> is what the
  kernel does at execution number \<open>k\<close> (counted from 0); the prompts are the task
  description and the error context themselves.
\<close>

definition sample_code :: string where
  "sample_code = ''import snowflake.connector  # connect, create the tables, load''"

definition sample_env :: "(nat \<Rightarrow> exn + string) \<Rightarrow> json_loads \<Rightarrow> nat env" where
  "sample_env answers decode =
     \<lparr>llm_create = (\<lambda>w messages. (Inr sample_code, w)),
      kernel_start = (\<lambda>w. (None, w)),
      kernel_run = (\<lambda>w code. (answers w, Suc w)),
      json_loads = decode,
      py_repr = (\<lambda>v. ''?''),
      system_prompt = (\<lambda>task. task),
      first_request = (\<lambda>task. task),
      fix_request = (\<lambda>context. context)\<rparr>"

definition started :: "nat run_state" where
  "started = \<lparr>world = 0, kernel = Some True, events = []\<rparr>"

definition fresh :: "nat run_state" where
  "fresh = \<lparr>world = 0, kernel = None, events = []\<rparr>"

text \<open>
  An output whose envelope is \<^verbatim>\<open>{"success": false, "error": "boom"}\<close>, and a kernel whose
  first execution raises and whose later executions print that output.
\<close>

definition boom_text :: string where
  \<open>boom_text = ''{"success": false, "error": "boom"}''\<close>

definition boom_value :: json where
  "boom_value = JObj [(''success'', JBool False), (''error'', JStr ''boom'')]"

definition boom_output :: string where
  "boom_output = RESULT_START @ boom_text @ RESULT_END"

definition boom_env :: "nat env" where
  "boom_env =
     sample_env (\<lambda>k. if k = 0 then Inl (RuntimeError ''Kernel execution error: boom'') else Inr boom_output)
       (decoding boom_text boom_value)"

section \<open>Execution phase (executor.py, lines 426--703)\<close>

text \<open>
  \<^verbatim>\<open>_build_mega_tasks\<close> returns four tasks with fixed identifiers.  Each description is a text
  made from the task, the order computed by the dependency orderer and the tables; its
  wording is the parameter \<open>describe\<close>.  The description of the third task lists, for every
  table with foreign keys, the references of its foreign keys (lines 553--562):
  \<^verbatim>\<open>
  "references": f"{fk.get('referred_table', '').upper()}({', '.join(fk.get('referred_columns', []))})"
  \<close>
  which raises an \<^verbatim>\<open>AttributeError\<close> at the first foreign key whose \<^verbatim>\<open>referred_table\<close> is
  \<^verbatim>\<open>null\<close>; then \<^verbatim>\<open>_build_mega_tasks\<close> returns no task.
\<close>

definition task_ids :: "string list" where
  "task_ids = [''1_setup_and_create_tables'', ''2_extract_and_load_all_data'',
     ''3_add_foreign_keys'', ''4_validate_migration'']"

definition null_reference :: "table list \<Rightarrow> bool" where
  "null_reference tables \<longleftrightarrow>
     list_ex (\<lambda>t. list_ex (\<lambda>fk. member_get_default (referred_table fk) [] = None) (foreign_keys t)) tables"

definition build_mega_tasks ::
  "(string \<Rightarrow> string list \<Rightarrow> table list \<Rightarrow> string) \<Rightarrow> string list \<Rightarrow> table list
     \<Rightarrow> exn + (string \<times> string) list" where
  "build_mega_tasks describe order tables =
     (let ordered_tables = ordered_tables_of order tables
      in if null_reference tables then Inl (no_attribute ''NoneType'' ''upper'')
         else Inr (map (\<lambda>task_id. (task_id, describe task_id ordered_tables tables)) task_ids))"

text \<open>An entry of \<^verbatim>\<open>self.execution_log\<close>: \<^verbatim>\<open>{"task_id", "status", "attempts", "result"}\<close>.\<close>

record log_entry =
  log_task_id :: string
  log_status :: string
  log_attempts :: int
  log_result :: json

text \<open>The two lists of the loop and the log of the executor.\<close>

record migration_state =
  completed_tasks :: "string list"
  failed_tasks :: "string list"
  execution_log :: "log_entry list"

text \<open>
  Line 668, \<^verbatim>\<open>print(f"Error: {result.get('last_error', 'Unknown')[:300]}")\<close>: the key is always
  there, so the default is never used; the value is sliced as it is.  The result is the
  exception raised, if any.
\<close>

definition print_last_error :: "task_outcome \<Rightarrow> exn option" where
  "print_last_error result =
     (case out_last_error result of
        None \<Rightarrow> Some (TypeError (quoted ''NoneType'' @ '' object is not subscriptable''))
      | Some v \<Rightarrow> (case py_slice 300 v of Inl e \<Rightarrow> Some e | Inr sliced \<Rightarrow> None))"

text \<open>
  \<^verbatim>\<open>
  for i, task in enumerate(tasks):
      result = self.worker.execute_task(task_id=task_id, task_description=description, ...)
      self.execution_log.append({"task_id": task_id,
          "status": "success" if result.get("success") else "failed",
          "attempts": result.get("attempts"), "result": result.get("result")})
      if result.get("success"):
          completed_tasks.append(task_id)
      else:
          failed_tasks.append(task_id)
          print(f"Error: {result.get('last_error', 'Unknown')[:300]}")
          # Continue with next task even if this one failed
  \<close>
  The result is the exception that left the loop, if any, with the state reached.
\<close>

fun tasks_loop ::
  "'w env \<Rightarrow> int \<Rightarrow> (string \<times> string) list \<Rightarrow> migration_state \<Rightarrow> 'w run_state
     \<Rightarrow> exn option \<times> migration_state \<times> 'w run_state" where
  "tasks_loop env max_attempts [] m s = (None, m, s)"
| "tasks_loop env max_attempts ((task_id, description) # tasks) m s =
     (case execute_task env max_attempts task_id description s of
        (Inl e, s') \<Rightarrow> (Some e, m, s')
      | (Inr result, s') \<Rightarrow>
          (let m = m\<lparr>execution_log := execution_log m @
                     [\<lparr>log_task_id = task_id,
                       log_status = (if out_success result then ''success'' else ''failed''),
                       log_attempts = out_attempts result, log_result = out_result result\<rparr>]\<rparr>
           in if out_success result then
                tasks_loop env max_attempts tasks (m\<lparr>completed_tasks := completed_tasks m @ [task_id]\<rparr>) s'
              else
                (let m = m\<lparr>failed_tasks := failed_tasks m @ [task_id]\<rparr>
                 in case print_last_error result of
                      Some e \<Rightarrow> (Some e, m, s')
                    | None \<Rightarrow> tasks_loop env max_attempts tasks m s')))"

text \<open>The report, without its times.\<close>

record report =
  rep_success :: bool
  rep_total_tasks :: nat
  rep_completed_tasks :: nat
  rep_failed_tasks :: nat
  rep_completed_task_ids :: "string list"
  rep_failed_task_ids :: "string list"
  rep_execution_log :: "log_entry list"

text \<open>
  \<^verbatim>\<open>
  try:
      self.worker.start_kernel()
      tasks = self._build_mega_tasks(catalog)
      ... the loop ...
  finally:
      self.worker.shutdown_kernel()
  report = {"success": len(failed_tasks) == 0, "total_tasks": len(tasks),
            "completed_tasks": len(completed_tasks), "failed_tasks": len(failed_tasks),
            "completed_task_ids": completed_tasks, "failed_task_ids": failed_tasks,
            "execution_log": self.execution_log, ...}
  return report
  \<close>
  \<open>max_attempts\<close> is the worker's bound, which \<^verbatim>\<open>MigrationExecutor.__init__\<close> sets to 7;
  \<open>log0\<close> is \<^verbatim>\<open>self.execution_log\<close> before the call.  The result is the report or the
  exception that left the function, and the executor's log.
\<close>

definition executor_max_attempts :: int where
  "executor_max_attempts = 7"

definition execute_migration ::
  "'w env \<Rightarrow> int \<Rightarrow> (string \<Rightarrow> string list \<Rightarrow> table list \<Rightarrow> string) \<Rightarrow> string list \<Rightarrow> table list
     \<Rightarrow> log_entry list \<Rightarrow> 'w run_state \<Rightarrow> ((exn + report) \<times> log_entry list) \<times> 'w run_state" where
  "execute_migration env max_attempts describe order tables log0 s0 =
     (case start_kernel env s0 of
        (Some e, s1) \<Rightarrow> ((Inl e, log0), shutdown_kernel s1)
      | (None, s1) \<Rightarrow>
          (case build_mega_tasks describe order tables of
             Inl e \<Rightarrow> ((Inl e, log0), shutdown_kernel s1)
           | Inr tasks \<Rightarrow>
               (case tasks_loop env max_attempts tasks
                       \<lparr>completed_tasks = [], failed_tasks = [], execution_log = log0\<rparr> s1 of
                  (Some e, m, s2) \<Rightarrow> ((Inl e, execution_log m), shutdown_kernel s2)
                | (None, m, s2) \<Rightarrow>
                    ((Inr \<lparr>rep_success = (length (failed_tasks m) = 0),
                            rep_total_tasks = length tasks,
                            rep_completed_tasks = length (completed_tasks m),
                            rep_failed_tasks = length (failed_tasks m),
                            rep_completed_task_ids = completed_tasks m,
                            rep_failed_task_ids = failed_tasks m,
                            rep_execution_log = execution_log m\<rparr>, execution_log m),
                     shutdown_kernel s2))))"

text \<open>
  A kernel that prints the envelope \<^verbatim>\<open>{"success": false, "error": 42}\<close> at every
  execution.
\<close>

definition num_text :: string where
  \<open>num_text = ''{"success": false, "error": 42}''\<close>

definition num_value :: json where
  "num_value = JObj [(''success'', JBool False), (''error'', JNum 42)]"

definition num_output :: string where
  "num_output = RESULT_START @ num_text @ RESULT_END"

definition num_env :: "nat env" where
  "num_env = sample_env (\<lambda>k. Inr num_output) (decoding num_text num_value)"

text \<open>
  A kernel that prints \<^verbatim>\<open>{"success": true}\<close> at its first execution and the envelope with
  the error \<^verbatim>\<open>boom\<close> from then on.
\<close>

definition mixed_decode :: json_loads where
  "mixed_decode = (\<lambda>t. if t = success_text then Inr success_value else decoding boom_text boom_value t)"

definition mixed_env :: "nat env" where
  "mixed_env =
     sample_env (\<lambda>k. if k = 0 then Inr (RESULT_START @ success_text @ RESULT_END) else Inr boom_output)
       mixed_decode"

text \<open>
  \<open>runs_only s s'\<close>: from \<open>s\<close> to \<open>s'\<close> the session object is the same and the only calls
  that reached it are executions.
\<close>

definition runs_only :: "'w run_state \<Rightarrow> 'w run_state \<Rightarrow> bool" where
  "runs_only s s' \<longleftrightarrow> kernel s' = kernel s \<and> (\<exists>evs. events s' = events s @ evs \<and> set evs \<subseteq> {Executed})"

text \<open>
  A kernel whose first six executions raise and whose seventh prints the envelope
  \<^verbatim>\<open>{"success": false, "error": 42}\<close>.
\<close>

definition late_num_env :: "nat env" where
  "late_num_env =
     sample_env (\<lambda>k. if k < 6 then Inl (RuntimeError ''Kernel execution error'') else Inr num_output)
       (decoding num_text num_value)"

section \<open>Discovery phase (schema\_analyzer.py, lines 151--288 and 404--501)\<close>

text \<open>
  What the kernel output of a discovery round decodes to.  The payload is taken to be
  shaped as the catalog document whenever the agent can read it: \<open>Payload tables
  relationships\<close>.  \<open>NotAnObject\<close> is a JSON document that is not an object, on which
  \<^verbatim>\<open>payload.get\<close> raises; \<open>Malformed\<close> is an object whose \<^verbatim>\<open>tables\<close> member is not empty and
  not a list of table objects, on which \<^verbatim>\<open>_build_fingerprint\<close> raises.  The decoder, a
  parameter, is \<^verbatim>\<open>json.loads\<close> with this reading of its result; as for \<open>json_loads\<close>, \<open>Inl\<close>
  is what it raises.
\<close>

datatype payload =
  Payload "table list" "json list"
| NotAnObject string
| Malformed string

type_synonym payload_loads = "string \<Rightarrow> exn + payload"

definition SCHEMA_RESULT_START :: string where
  "SCHEMA_RESULT_START = ''SCHEMA_ANALYSIS_RESULT_START''"

definition SCHEMA_RESULT_END :: string where
  "SCHEMA_RESULT_END = ''SCHEMA_ANALYSIS_RESULT_END''"

text \<open>
  \<^verbatim>\<open>_parse_kernel_output\<close>: the strict tier alone; a \<^verbatim>\<open>RuntimeError\<close> where the markers are
  missing or out of order, or the text between them is not JSON; what else \<^verbatim>\<open>json.loads\<close>
  raises goes through.
\<close>

definition parse_kernel_output :: "payload_loads \<Rightarrow> string \<Rightarrow> exn + payload" where
  "parse_kernel_output decode raw_output =
     (let start_idx = py_find raw_output SCHEMA_RESULT_START 0;
          end_idx = py_find raw_output SCHEMA_RESULT_END 0
      in if start_idx = - 1 \<or> end_idx = - 1 \<or> end_idx \<le> start_idx then
           Inl (RuntimeError (''Unable to parse schema payload from kernel output. Expected markers ''
              @ quoted SCHEMA_RESULT_START @ '' and '' @ quoted SCHEMA_RESULT_END
              @ '' not found or in wrong order. Output preview: '' @ take 500 raw_output))
         else
           (let json_text = strip (slice raw_output (start_idx + int (length SCHEMA_RESULT_START)) end_idx)
            in case decode json_text of
                 Inr p \<Rightarrow> Inr p
               | Inl (JSONDecodeError e) \<Rightarrow>
                   Inl (RuntimeError (''Failed to parse JSON from kernel output: '' @ e @ nl
                          @ ''JSON text: '' @ take 500 json_text))
               | Inl raised \<Rightarrow> Inl raised))"

text \<open>
  The messages of a generation request of the analyzer (lines 404--425): the system
  prompt; at the first iteration the opening request; later the last 8 messages of the
  conversation and one request that depends on \<^verbatim>\<open>last_error\<close>.
\<close>

definition analyzer_window :: "message list \<Rightarrow> message list" where
  "analyzer_window turns = last_n 8 turns"

definition analyzer_messages ::
  "'w env \<Rightarrow> string \<Rightarrow> int \<Rightarrow> string option \<Rightarrow> message list \<Rightarrow> message list" where
  "analyzer_messages env db iteration error turns =
     (let messages = [\<lparr>role = ''system'', content = system_prompt env db\<rparr>]
      in if iteration = 1 then
           messages @ [\<lparr>role = ''user'', content = first_request env db\<rparr>]
         else
           messages @ analyzer_window turns @
             [\<lparr>role = ''user'',
               content =
                 (if error \<noteq> None \<and> error \<noteq> Some [] then
                    ''The previous code failed. Please fix it and generate new code.'' @ nl @ nl
                      @ ''Error: '' @ the error
                  else ''Please regenerate the inspection code to verify the schema analysis is stable and complete.'')\<rparr>])"

text \<open>
  The analyzer's \<^verbatim>\<open>_ask_llm_for_code\<close>; its parameter \<^verbatim>\<open>last_output\<close> is not used.  An
  exception of the oracle leaves the function.
\<close>

definition analyzer_ask ::
  "'w env \<Rightarrow> string \<Rightarrow> int \<Rightarrow> string option \<Rightarrow> message list \<Rightarrow> 'w run_state
     \<Rightarrow> (exn + string) \<times> 'w run_state" where
  "analyzer_ask env db iteration error turns s =
     (case llm_create env (world s) (analyzer_messages env db iteration error turns) of
        (Inl e, w) \<Rightarrow> (Inl e, s\<lparr>world := w\<rparr>)
      | (Inr response_text, w) \<Rightarrow> (Inr (analyzer_extract_code response_text), s\<lparr>world := w\<rparr>))"

text \<open>The local variables of \<^verbatim>\<open>analyze_schema\<close> that the loop reads and writes.\<close>

record analysis_state =
  metadata :: "table list"
  relationships :: "json list"
  iteration :: int
  stability :: "table_entry list conv_state"
  dialogue :: "message list"
  recent_error :: "string option"
  recent_output :: "string option"

definition analysis_init :: analysis_state where
  "analysis_init = \<lparr>metadata = [], relationships = [], iteration = 0, stability = conv_init,
     dialogue = [], recent_error = None, recent_output = None\<rparr>"

text \<open>The assistant turn that every executed round appends, and a user turn.\<close>

definition generated_turn :: "string \<Rightarrow> message" where
  "generated_turn code =
     \<lparr>role = ''assistant'', content = ''I generated this code:'' @ nl @ ''```python'' @ nl @ code @ nl @ ''```''\<rparr>"

definition user_turn :: "string \<Rightarrow> message" where
  "user_turn text = \<lparr>role = ''user'', content = text\<rparr>"

text \<open>
  How a round of the discovery loop ends: at \<^verbatim>\<open>continue\<close>, at \<^verbatim>\<open>break\<close>, or with an
  exception that leaves the \<^verbatim>\<open>while\<close> loop for the outer handler.
\<close>

datatype round_end = Continue | Break | Escaped exn

text \<open>
  The inner \<^verbatim>\<open>try\<close> (lines 191--197): \<^verbatim>\<open>session.execute(code)\<close> and
  \<^verbatim>\<open>_parse_kernel_output(raw_output)\<close>; what either raises goes to the inner handler.
\<close>

definition execute_and_parse ::
  "'w env \<Rightarrow> payload_loads \<Rightarrow> string \<Rightarrow> 'w run_state \<Rightarrow> (exn + string \<times> payload) \<times> 'w run_state" where
  "execute_and_parse env decode code s =
     (case session_execute env code s of
        (Inl e, s') \<Rightarrow> (Inl e, s')
      | (Inr raw_output, s') \<Rightarrow>
          (case parse_kernel_output decode raw_output of
             Inl e \<Rightarrow> (Inl e, s')
           | Inr p \<Rightarrow> (Inr (raw_output, p), s')))"

text \<open>
  The body of the \<^verbatim>\<open>while\<close> loop after \<^verbatim>\<open>iteration += 1\<close> (lines 171--256).  The oracle
  call, reading the payload and building the fingerprint stand outside the inner \<^verbatim>\<open>try\<close>.
\<close>

definition analysis_round ::
  "'w env \<Rightarrow> payload_loads \<Rightarrow> string \<Rightarrow> int \<Rightarrow> analysis_state \<Rightarrow> 'w run_state
     \<Rightarrow> round_end \<times> analysis_state \<times> 'w run_state" where
  "analysis_round env decode db required st s0 =
     (case analyzer_ask env db (iteration st) (recent_error st) (dialogue st) s0 of
        (Inl e, s) \<Rightarrow> (Escaped e, st, s)
      | (Inr code, s) \<Rightarrow>
          if code = [] \<or> length (strip code) < 50 then
            (let err = ''LLM returned empty or insufficient code. Please generate complete Python code.''
             in (Continue, st\<lparr>recent_error := Some err, dialogue := dialogue st @ [user_turn err]\<rparr>, s))
          else
            (case execute_and_parse env decode code s of
               (Inl e, s) \<Rightarrow>
                 (Continue,
                  st\<lparr>recent_error := Some (exn_str e), recent_output := None,
                     dialogue := dialogue st @
                       [generated_turn code,
                        user_turn (''The code failed with this error:'' @ nl @ exn_str e @ nl @ nl
                          @ ''Please analyze the error and generate fixed code.'')]\<rparr>, s)
             | (Inr (raw_output, p), s) \<Rightarrow>
                 (let st = st\<lparr>recent_output := Some raw_output, recent_error := None\<rparr>
                  in case p of
                       NotAnObject type \<Rightarrow> (Escaped (no_attribute type ''get''), st, s)
                     | Malformed msg \<Rightarrow> (Escaped (AttributeError msg), st, s)
                     | Payload tables rels \<Rightarrow>
                         (let st = st\<lparr>metadata := tables, relationships := rels\<rparr>
                          in if metadata st = [] then
                               (Continue,
                                st\<lparr>recent_error := Some ''Code executed but returned no tables in the payload.'',
                                   dialogue := dialogue st @
                                     [generated_turn code,
                                      user_turn (''The code ran successfully but the payload contained no tables. Output was:''
                                        @ nl @ take 1000 raw_output @ nl @ nl
                                        @ ''Please investigate and fix the code.'')]\<rparr>, s)
                             else
                               (let fingerprint = build_fingerprint (metadata st);
                                    st = st\<lparr>stability := check_stability required fingerprint (stability st)\<rparr>;
                                    st = st\<lparr>dialogue := dialogue st @
                                      [generated_turn code,
                                       user_turn (''Code executed successfully! Found ''
                                         @ str_nat (length (metadata st)) @ '' tables with ''
                                         @ str_nat (length (relationships st)) @ '' relationships. Stable rounds: ''
                                         @ str_int (stable_rounds (stability st)) @ ''/''
                                         @ str_int required @ ''. ''
                                         @ (if satisfied (stability st) then ''Analysis complete!''
                                            else ''Please regenerate to verify stability.''))]\<rparr>
                                in (if satisfied (stability st) then Break else Continue, st, s))))))"

lemma analysis_round_iteration:
  "analysis_round env decode db required st s = (r, st', s') \<Longrightarrow> iteration st' = iteration st"
  unfolding analysis_round_def Let_def
  by (auto split: prod.splits sum.splits if_splits payload.splits)

text \<open>
  \<^verbatim>\<open>while iteration < self.max_iterations: iteration += 1; ...\<close>  The result says whether an
  exception left the loop, and gives the variables as they are then.
\<close>

function analysis_loop ::
  "'w env \<Rightarrow> payload_loads \<Rightarrow> string \<Rightarrow> int \<Rightarrow> int \<Rightarrow> analysis_state \<Rightarrow> 'w run_state
     \<Rightarrow> exn option \<times> analysis_state \<times> 'w run_state" where
  "analysis_loop env decode db max_iterations required st s =
     (if iteration st < max_iterations then
        (case analysis_round env decode db required (st\<lparr>iteration := iteration st + 1\<rparr>) s of
           (Escaped e, st', s') \<Rightarrow> (Some e, st', s')
         | (Break, st', s') \<Rightarrow> (None, st', s')
         | (Continue, st', s') \<Rightarrow> analysis_loop env decode db max_iterations required st' s')
      else (None, st, s))"
  by pat_completeness auto
termination
proof (relation "measure (\<lambda>(env, decode, db, max_iterations, required, st, s). nat (max_iterations - iteration st))")
  show "wf (measure (\<lambda>(env :: 'w env, decode :: payload_loads, db :: string, max_iterations, required :: int,
      st, s :: 'w run_state). nat (max_iterations - iteration st)))"
    by simp
next
  fix env :: "'w env" and decode :: payload_loads and db :: string and max_iterations required :: int
    and st st' :: analysis_state and s s' :: "'w run_state" and x y
  assume "iteration st < max_iterations"
    and "(x, y) = analysis_round env decode db required (st\<lparr>iteration := iteration st + 1\<rparr>) s"
    and "(st', s') = y"
  then have "iteration st' = iteration st + 1"
    using analysis_round_iteration [of env decode db required "st\<lparr>iteration := iteration st + 1\<rparr>" s x st' s']
    by simp
  then show "((env, decode, db, max_iterations, required, st', s'), (env, decode, db, max_iterations, required, st, s))
      \<in> measure (\<lambda>(env, decode, db, max_iterations, required, st, s). nat (max_iterations - iteration st))"
    using \<open>iteration st < max_iterations\<close> by simp
qed

declare analysis_loop.simps [simp del]

text \<open>
  \<^verbatim>\<open>
  try:
      session.start()
      session_started = True
      while ...
  \<close>
  The new session object is not started.  The result says whether an exception reached
  the outer handler, gives the variables as they are then, and \<^verbatim>\<open>session_started\<close>.
\<close>

definition guarded_discovery ::
  "'w env \<Rightarrow> payload_loads \<Rightarrow> string \<Rightarrow> int \<Rightarrow> int \<Rightarrow> 'w run_state
     \<Rightarrow> exn option \<times> analysis_state \<times> bool \<times> 'w run_state" where
  "guarded_discovery env decode db max_iterations required s0 =
     (case session_start env (s0\<lparr>kernel := Some False\<rparr>) of
        (Some e, s1) \<Rightarrow> (Some e, analysis_init, False, s1)
      | (None, s1) \<Rightarrow>
          (case analysis_loop env decode db max_iterations required analysis_init s1 of
             (raised, st, s2) \<Rightarrow> (raised, st, True, s2)))"

text \<open>
  \<^verbatim>\<open>
  except Exception as exc:
      metadata = []
      relationships = []
      satisfied = False
  \<close>
\<close>

definition discard :: "analysis_state \<Rightarrow> analysis_state" where
  "discard st = st\<lparr>metadata := [], relationships := [],
     stability := (stability st)\<lparr>satisfied := False\<rparr>\<rparr>"

text \<open>
  The dictionary that \<^verbatim>\<open>analyze_schema\<close> returns (without \<^verbatim>\<open>output_dir\<close>).  The two report
  files are written by \<^verbatim>\<open>_dump_markdown\<close> and \<^verbatim>\<open>_dump_json\<close>, which are called only when
  \<^verbatim>\<open>metadata\<close> is not empty and return the file names; \<open>stamp\<close> is the time stamp in the
  names.
\<close>

record analysis_result =
  res_success :: bool
  analysis_file :: "string option"
  schema_file :: "string option"
  iterations :: int
  res_satisfied :: bool

definition analysis_report :: "string \<Rightarrow> analysis_state \<Rightarrow> analysis_result" where
  "analysis_report stamp st =
     \<lparr>res_success = (metadata st \<noteq> []),
      analysis_file = (if metadata st \<noteq> [] then Some (''schema_analysis_'' @ stamp @ ''.md'') else None),
      schema_file = (if metadata st \<noteq> [] then Some (''schema_catalog_'' @ stamp @ ''.json'') else None),
      iterations = iteration st,
      res_satisfied = satisfied (stability st)\<rparr>"

text \<open>
  \<^verbatim>\<open>analyze_schema\<close>: the guarded part, the handler if an exception reached it, and
  \<^verbatim>\<open>finally: if session_started: session.shutdown()\<close>; then the report.
\<close>

definition analyze_schema ::
  "'w env \<Rightarrow> payload_loads \<Rightarrow> string \<Rightarrow> int \<Rightarrow> int \<Rightarrow> string \<Rightarrow> 'w run_state
     \<Rightarrow> analysis_result \<times> 'w run_state" where
  "analyze_schema env decode db max_iterations required stamp s0 =
     (case guarded_discovery env decode db max_iterations required s0 of
        (raised, st, session_started, s) \<Rightarrow>
          (let st = (if raised \<noteq> None then discard st else st);
               s = (if session_started then session_shutdown s else s)
           in (analysis_report stamp st, s)))"

text \<open>
  A discovery world whose state counts the calls of the oracle: the oracle answers its
  first call with the sample code and raises at every later call; the kernel prints a payload between the markers; the decoder reads the
  payload as the one table \<open>orders\<close>.
\<close>

definition payload_output :: string where
  "payload_output = SCHEMA_RESULT_START @ ''{...}'' @ SCHEMA_RESULT_END"

definition orders_decode :: payload_loads where
  "orders_decode = (\<lambda>text. Inr (Payload [orders] []))"

definition outage_env :: "nat env" where
  "outage_env =
     \<lparr>llm_create = (\<lambda>w messages. if w = 0 then (Inr sample_code, Suc w)
                                    else (Inl (UpstreamError ''503 Service Unavailable''), Suc w)),
      kernel_start = (\<lambda>w. (None, w)),
      kernel_run = (\<lambda>w code. (Inr payload_output, w)),
      json_loads = rejecting ''unused'',
      py_repr = (\<lambda>v. ''?''),
      system_prompt = (\<lambda>task. task),
      first_request = (\<lambda>task. task),
      fix_request = (\<lambda>context. context)\<rparr>"

section \<open>Planner: instructions and history (planner.py, lines 14--80)\<close>

text \<open>
  A \<^verbatim>\<open>PlannerAgent\<close>: its name, its system prompt, the history of its exchanges and
  \<^verbatim>\<open>max_retries\<close>.
\<close>

record planner =
  planner_name :: string
  planner_prompt :: string
  history :: "message list"
  max_retries :: int

text \<open>
  \<^verbatim>\<open>
  messages = [SimpleLLMMessage(role="system", content=self.system_prompt)]
  messages.extend(self.history)
  messages.append(SimpleLLMMessage(role="user", content=instruction))
  \<close>
\<close>

definition planner_messages :: "planner \<Rightarrow> string \<Rightarrow> message list" where
  "planner_messages p instruction =
     [\<lparr>role = ''system'', content = planner_prompt p\<rparr>] @ history p
       @ [\<lparr>role = ''user'', content = instruction\<rparr>]"

definition nudge :: message where
  "nudge = \<lparr>role = ''user'', content = ''Please provide your response. Do not return empty content.''\<rparr>"

text \<open>
  The retry loop for empty replies, over the remaining values \<open>n # rest\<close> of \<^verbatim>\<open>attempt\<close>.  The result
  is \<^verbatim>\<open>response_content\<close> after the loop, or the exception that the oracle raised.
\<close>

fun retry_loop ::
  "('w \<Rightarrow> message list \<Rightarrow> (exn + string) \<times> 'w) \<Rightarrow> int \<Rightarrow> int list \<Rightarrow> message list \<Rightarrow> string \<Rightarrow> 'w
     \<Rightarrow> (exn + string) \<times> 'w" where
  "retry_loop create retries [] messages response_content w = (Inr response_content, w)"
| "retry_loop create retries (n # rest) messages response_content w =
     (case create w messages of
        (Inl e, w') \<Rightarrow> (Inl e, w')
      | (Inr reply, w') \<Rightarrow>
          if strip reply \<noteq> [] then (Inr reply, w')
          else retry_loop create retries rest
                 (if n < retries then messages @ [nudge] else messages) reply w')"

definition empty_response :: "planner \<Rightarrow> string" where
  "empty_response p =
     ''['' @ planner_name p @ '' returned empty response after '' @ str_int (max_retries p)
       @ '' attempts]''"

text \<open>
  \<^verbatim>\<open>send_instruction\<close>: the reply (or the exception of the oracle, which leaves the history
  as it was), the planner with its new history, and the world.
\<close>

definition send_instruction ::
  "'w env \<Rightarrow> planner \<Rightarrow> string \<Rightarrow> 'w \<Rightarrow> (exn + string) \<times> planner \<times> 'w" where
  "send_instruction env p instruction w =
     (case retry_loop (llm_create env) (max_retries p) [1..max_retries p]
             (planner_messages p instruction) [] w of
        (Inl e, w') \<Rightarrow> (Inl e, p, w')
      | (Inr response_content, w') \<Rightarrow>
          (let response_content =
                 (if strip response_content = [] then empty_response p else response_content)
           in (Inr response_content,
               p\<lparr>history := history p @ [\<lparr>role = ''user'', content = instruction\<rparr>,
                                          \<lparr>role = ''assistant'', content = response_content\<rparr>]\<rparr>,
               w')))"

text \<open>Instructions sent to one planner, one after the other, until one raises.\<close>

fun instruct :: "'w env \<Rightarrow> planner \<Rightarrow> string list \<Rightarrow> 'w \<Rightarrow> exn option \<times> planner \<times> 'w" where
  "instruct env p [] w = (None, p, w)"
| "instruct env p (instruction # rest) w =
     (case send_instruction env p instruction w of
        (Inl e, p', w') \<Rightarrow> (Some e, p', w')
      | (Inr reply, p', w') \<Rightarrow> instruct env p' rest w')"

text \<open>
  A world that records the requests: its state is the list of the numbers of messages of
  the requests that the oracle has received; the oracle always answers with the sample
  code.  A planner as \<^verbatim>\<open>PlannerAgent.__init__\<close> leaves it, and ten numbered turns.
\<close>

definition recording_env :: "nat list env" where
  "recording_env =
     \<lparr>llm_create = (\<lambda>w messages. (Inr sample_code, w @ [length messages])),
      kernel_start = (\<lambda>w. (None, w)),
      kernel_run = (\<lambda>w code. (Inr [], w)),
      json_loads = rejecting ''unused'',
      py_repr = (\<lambda>v. ''?''),
      system_prompt = (\<lambda>task. task),
      first_request = (\<lambda>task. task),
      fix_request = (\<lambda>context. context)\<rparr>"

definition alpha :: planner where
  "alpha = \<lparr>planner_name = ''Planner Alpha'', planner_prompt = ''You plan migrations.'',
            history = [], max_retries = 3\<rparr>"

definition turn :: "string \<Rightarrow> message" where
  "turn text = \<lparr>role = ''user'', content = text\<rparr>"

definition ten_turns :: "message list" where
  "ten_turns = map turn [''t0'', ''t1'', ''t2'', ''t3'', ''t4'', ''t5'', ''t6'', ''t7'', ''t8'', ''t9'']"

section \<open>Properties of the code extractor\<close>

lemma split_at_find_at:
  "split_at sep s = map_option (\<lambda>i. (take i s, drop (i + length sep) s)) (find_at sep s)"
  by (induction s) (auto simp add: option.map_comp comp_def)

lemma find_at_bound: "find_at sub s = Some i \<Longrightarrow> i + length sub \<le> length s"
proof (induction s arbitrary: i)
  case Nil
  then show ?case by (simp split: if_splits)
next
  case (Cons c cs)
  show ?case
  proof (cases "prefix sub (c # cs)")
    case True
    then have "length sub \<le> length (c # cs)"
      by (rule prefix_length_le)
    then show ?thesis
      using Cons.prems True by simp
  next
    case False
    then obtain j where "find_at sub cs = Some j" "i = Suc j"
      using Cons.prems by auto
    then show ?thesis
      using Cons.IH by fastforce
  qed
qed

lemma py_find_from:
  "0 \<le> start \<Longrightarrow> py_find s sub start =
     (case find_at sub (drop (nat start) s) of None \<Rightarrow> - 1 | Some j \<Rightarrow> start + int j)"
  by (simp add: py_find_def)

lemma block_from:
  assumes "0 \<le> start"
  shows "(let end = py_find s fence start in if end > start then Some (strip (slice s start end)) else None)
     = interior (drop (nat start) s)"
proof (cases "find_at fence (drop (nat start) s)")
  case None
  then show ?thesis
    using assms by (simp add: py_find_def interior_def split_at_find_at Let_def)
next
  case (Some j)
  then have "j + length fence \<le> length (drop (nat start) s)"
    by (rule find_at_bound)
  then have "j < length (drop (nat start) s)"
    by (simp add: fence_def)
  then have "take j (drop (nat start) s) = [] \<longleftrightarrow> j = 0"
    by auto
  then show ?thesis
    using Some by (auto simp add: py_find_def interior_def split_at_find_at slice_def Let_def)
qed

lemma python_block_steps:
  "python_block response = Option.bind (split_at python_fence response) (\<lambda>(before, after). interior after)"
proof (cases "find_at python_fence response")
  case None
  then show ?thesis
    by (simp add: python_block_def contains_def split_at_find_at)
next
  case (Some i)
  have "py_find response python_fence 0 = int i"
    using Some by (simp add: py_find_def)
  then have "python_block response = interior (drop (nat (int i + int (length python_fence))) response)"
    using Some block_from [of "int i + int (length python_fence)" response]
    by (simp add: python_block_def contains_def)
  then show ?thesis
    using Some by (simp add: split_at_find_at nat_add_distrib)
qed

lemma skip_tag_from:
  assumes "0 \<le> start"
  shows "drop (nat (let newline_pos = py_find s [newline] start
      in if newline_pos > start \<and> newline_pos - start < 20 then newline_pos + 1 else start)) s
     = skip_tag (drop (nat start) s)"
proof (cases "find_at [newline] (drop (nat start) s)")
  case None
  then show ?thesis
    using assms by (simp add: py_find_def skip_tag_def split_at_find_at Let_def)
next
  case (Some k)
  then have "k + length [newline] \<le> length (drop (nat start) s)"
    by (rule find_at_bound)
  then have k: "k < length (drop (nat start) s)"
    by simp
  then have "take k (drop (nat start) s) = [] \<longleftrightarrow> k = 0" "length (take k (drop (nat start) s)) = k"
    by auto
  moreover have "nat (start + int k + 1) = k + 1 + nat start"
    using assms by simp
  ultimately show ?thesis
    using Some assms by (auto simp add: py_find_def skip_tag_def split_at_find_at Let_def add.commute)
qed


lemma any_block_steps:
  "any_block response = Option.bind (split_at fence response) (\<lambda>(before, after). interior (skip_tag after))"
proof (cases "find_at fence response")
  case None
  then show ?thesis
    by (simp add: any_block_def contains_def split_at_find_at)
next
  case (Some i)
  define start0 where "start0 = int i + 3"
  define start1 where "start1 = (let newline_pos = py_find response [newline] start0
      in if newline_pos > start0 \<and> newline_pos - start0 < 20 then newline_pos + 1 else start0)"
  have start0: "0 \<le> start0" "py_find response fence 0 + 3 = start0"
    using Some by (simp_all add: start0_def py_find_def)
  have start1: "0 \<le> start1"
    using start0(1) by (auto simp add: start1_def Let_def)
  have "any_block response =
      (let end = py_find response fence start1
       in if end > start1 then Some (strip (slice response start1 end)) else None)"
    using Some start0(2) by (simp add: any_block_def contains_def start1_def Let_def)
  also have "\<dots> = interior (drop (nat start1) response)"
    using start1 by (rule block_from)
  also have "drop (nat start1) response = skip_tag (drop (nat start0) response)"
    unfolding start1_def using start0(1) by (rule skip_tag_from)
  finally have "any_block response = interior (skip_tag (drop (nat start0) response))" .
  moreover have "length fence = 3"
    by (simp add: fence_def)
  ultimately show ?thesis
    using Some by (simp add: split_at_find_at start0_def nat_add_distrib)
qed

lemma scan_lines_in_code: "scan_lines True lines = lines"
  by (induction lines) simp_all

lemma scan_lines_dropWhile:
  "scan_lines False lines = dropWhile (\<lambda>line. \<not> starts_code (strip line)) lines"
  by (induction lines) (simp_all add: scan_lines_in_code)

lemma worker_extract_code_steps: "worker_extract_code response = extract_steps False response"
  unfolding worker_extract_code_def extract_steps_def python_block_steps any_block_steps Let_def
  by simp

lemma dropWhile_all: "(\<forall>x \<in> set xs. P x) \<Longrightarrow> dropWhile P xs = []"
  by simp

lemma analyzer_extract_code_steps: "analyzer_extract_code response = extract_steps True response"
  unfolding analyzer_extract_code_def extract_steps_def python_block_steps any_block_steps
    scan_lines_dropWhile Let_def
  by (auto split: list.splits option.splits simp add: dropWhile_all)

lemmas extract_eval =
  worker_extract_code_def analyzer_extract_code_def python_block_def any_block_def contains_def
  py_find_def fence_def python_fence_def newline_def slice_def strip_def is_space_def
  starts_code_def code_starts_def prose_starts_def

text \<open>
  Claim C7, as the code has it.  Both extractors are functions of the response alone.  The
  schema analyzer's is the four steps (a) to (d) and the worker's is the steps (a), (b) and
  (d), without the line scan (c): each strips the response first (an empty response gives
  the empty string), returns the stripped interior of a \<^verbatim>\<open>python\<close> block or else of any
  block, past a tag line of 1 to 19 characters, where a block counts only if a closing
  fence follows a non-empty interior, and otherwise returns the stripped response (the
  analyzer: the stripped lines from the first one that looks like code, if there is one).
\<close>

theorem extract_code_steps:
  "analyzer_extract_code response = extract_steps True response
   \<and> worker_extract_code response = extract_steps False response
   \<and> analyzer_extract_code [] = [] \<and> worker_extract_code [] = []
   \<and> analyzer_extract_code (''```lang'' @ [newline] @ ''code'' @ [newline] @ ''```'') = ''code''
   \<and> worker_extract_code (''```lang'' @ [newline] @ ''code'' @ [newline] @ ''```'') = ''code''"
proof -
  have "analyzer_extract_code [] = []" "worker_extract_code [] = []"
    by (simp_all add: analyzer_extract_code_def worker_extract_code_def)
  moreover have "worker_extract_code (''```lang'' @ [newline] @ ''code'' @ [newline] @ ''```'') = ''code''"
    by (simp add: extract_eval)
  moreover have "analyzer_extract_code (''```lang'' @ [newline] @ ''code'' @ [newline] @ ''```'') = ''code''"
    by (simp add: extract_eval)
  ultimately show ?thesis
    using analyzer_extract_code_steps worker_extract_code_steps by simp
qed

text \<open>
  The theorem at a response with prose around a \<^verbatim>\<open>python\<close> block: both extractors return
  the interior of the block, as step (a) says.
\<close>

theorem extract_code_steps_witness:
  "extract_steps True (''Sure: ```python'' @ [newline] @ ''import os'' @ [newline] @ ''``` Done'')
     = ''import os''
   \<and> analyzer_extract_code (''Sure: ```python'' @ [newline] @ ''import os'' @ [newline] @ ''``` Done'')
     = ''import os''
   \<and> worker_extract_code (''Sure: ```python'' @ [newline] @ ''import os'' @ [newline] @ ''``` Done'')
     = ''import os''"
proof -
  let ?r = "''Sure: ```python'' @ [newline] @ ''import os'' @ [newline] @ ''``` Done''"
  have w: "worker_extract_code ?r = ''import os''"
    by (simp add: extract_eval)
  have a: "analyzer_extract_code ?r = ''import os''"
    by (simp add: extract_eval)
  have "extract_steps True ?r = analyzer_extract_code ?r"
    by (rule sym) (rule conjunct1 [OF extract_code_steps])
  then have "extract_steps True ?r = ''import os''"
    by (simp only: a)
  then show ?thesis
    using a w by (intro conjI)
qed

text \<open>
  The claim as stated fails for the worker and in step (d).  On a response without a fence
  whose second line is an import statement, the analyzer discards the leading prose and the
  worker returns the response whole: the worker has no step (c).  On a response without
  fence or code line that has blanks at its ends, both return the stripped response, not
  the input unchanged.
\<close>

theorem extract_code_counterexample:
  "analyzer_extract_code (''Here is the code:'' @ [newline] @ ''import os'') = ''import os''
   \<and> worker_extract_code (''Here is the code:'' @ [newline] @ ''import os'')
       = ''Here is the code:'' @ [newline] @ ''import os''
   \<and> analyzer_extract_code ''  hello  '' = ''hello''
   \<and> worker_extract_code ''  hello  '' = ''hello''"
  by (simp add: extract_eval)

section \<open>Properties of the result envelope parser\<close>








lemmas envelope_eval =
  parse_task_result_def py_find_def RESULT_START_def RESULT_END_def slice_def strip_def
  is_space_def lower_def lower_char_def contains_def decoding_def rejecting_def success_text_def
  success_value_def failure_def soft_success_def text_between_def newline_def







section \<open>Properties of the dependency orderer\<close>

lemma find_ready_None:
  "find (ready deps remaining) remaining = None \<Longrightarrow> x \<in> set remaining \<Longrightarrow> deps x \<inter> set remaining \<noteq> {}"
  by (auto simp add: find_None_iff ready_def)

lemma find_ready_Some:
  "find (ready deps remaining) remaining = Some t \<Longrightarrow> t \<in> set remaining \<and> deps t \<inter> set remaining = {}"
  by (auto simp add: find_Some_iff ready_def)

lemma topo_loop_shape:
  "distinct remaining \<Longrightarrow>
   \<exists>picked rest. topo_loop deps remaining acc = acc @ picked @ rest
     \<and> distinct (picked @ rest) \<and> set (picked @ rest) = set remaining
     \<and> rest = filter (\<lambda>x. x \<in> set rest) remaining
     \<and> (\<forall>x \<in> set rest. deps x \<inter> set rest \<noteq> {})
     \<and> (\<forall>ps u ss. picked = ps @ u # ss \<longrightarrow> deps u \<inter> set remaining \<subseteq> set ps)"
proof (induction deps remaining acc rule: topo_loop.induct)
  case (1 deps remaining acc)
  show ?case
  proof (cases "remaining = []")
    case True
    then have "topo_loop deps remaining acc = acc @ [] @ []"
      by (subst topo_loop.simps) simp
    then show ?thesis
      using True by (intro exI [of _ "[]"]) simp
  next
    case nonempty: False
    show ?thesis
    proof (cases "find (ready deps remaining) remaining")
      case None
      then have stuck: "\<forall>x \<in> set remaining. deps x \<inter> set remaining \<noteq> {}"
        using find_ready_None by blast
      have "topo_loop deps remaining acc = acc @ [] @ remaining"
        using nonempty None by (subst topo_loop.simps) simp
      moreover have "remaining = filter (\<lambda>x. x \<in> set remaining) remaining"
        by simp
      ultimately show ?thesis
        using stuck "1.prems" by (intro exI [of _ "[]"] exI [of _ remaining]) simp
    next
      case (Some t)
      then have t: "t \<in> set remaining" "deps t \<inter> set remaining = {}"
        using find_ready_Some by blast+
      have "distinct (removeAll t remaining)"
        using "1.prems" by (simp add: distinct_removeAll)
      from "1.IH" [OF nonempty Some this]
      obtain picked rest where ih:
        "topo_loop deps (removeAll t remaining) (acc @ [t]) = (acc @ [t]) @ picked @ rest"
        "distinct (picked @ rest)" "set (picked @ rest) = set (removeAll t remaining)"
        "rest = filter (\<lambda>x. x \<in> set rest) (removeAll t remaining)"
        "\<forall>x \<in> set rest. deps x \<inter> set rest \<noteq> {}"
        "\<forall>ps u ss. picked = ps @ u # ss \<longrightarrow> deps u \<inter> set (removeAll t remaining) \<subseteq> set ps"
        by blast
      have run: "topo_loop deps remaining acc = acc @ (t # picked) @ rest"
        using nonempty Some ih(1) by (subst topo_loop.simps) simp
      have tnot: "t \<notin> set (picked @ rest)"
        using ih(3) by simp
      have d: "distinct ((t # picked) @ rest)"
        using ih(2) tnot by simp
      have s: "set ((t # picked) @ rest) = set remaining"
        using ih(3) t(1) by auto
      have "filter (\<lambda>x. x \<in> set rest) (removeAll t remaining) = filter (\<lambda>x. x \<in> set rest) remaining"
        using tnot by (induction remaining) auto
      then have r: "rest = filter (\<lambda>x. x \<in> set rest) remaining"
        using ih(4) by simp
      have p: "deps u \<inter> set remaining \<subseteq> set ps" if "t # picked = ps @ u # ss" for ps u ss
      proof (cases ps)
        case Nil
        then show ?thesis using that t(2) by simp
      next
        case (Cons a ps')
        then have "picked = ps' @ u # ss" and "a = t"
          using that by simp_all
        then have "deps u \<inter> set (removeAll t remaining) \<subseteq> set ps'"
          using ih(6) by blast
        then show ?thesis
          using Cons \<open>a = t\<close> by auto
      qed
      show ?thesis
      proof (intro exI conjI)
        show "topo_loop deps remaining acc = acc @ (t # picked) @ rest" by (rule run)
        show "distinct ((t # picked) @ rest)" by (rule d)
        show "set ((t # picked) @ rest) = set remaining" by (rule s)
        show "rest = filter (\<lambda>x. x \<in> set rest) remaining" by (rule r)
        show "\<forall>x \<in> set rest. deps x \<inter> set rest \<noteq> {}" by (rule ih(5))
        show "\<forall>ps u ss. t # picked = ps @ u # ss \<longrightarrow> deps u \<inter> set remaining \<subseteq> set ps"
          using p by blast
      qed
    qed
  qed
qed


lemma in_fold_add_dep:
  "r \<in> fold (add_dep tname) fks acc \<longleftrightarrow>
     r \<in> acc \<or> (\<exists>fk \<in> set fks. member_get (referred_table fk) = Some r \<and> r \<noteq> [] \<and> r \<noteq> tname)"
  by (induction fks arbitrary: acc) (auto simp add: add_dep_def split: option.splits)

lemma deps_of_iff:
  "r \<in> deps_of t \<longleftrightarrow>
     (\<exists>fk \<in> set (foreign_keys t). member_get (referred_table fk) = Some r \<and> r \<noteq> [] \<and> r \<noteq> table_name t)"
  by (simp add: deps_of_def in_fold_add_dep)

lemma fold_table_deps_other:
  "n \<notin> set (map table_name tables) \<Longrightarrow>
   fold (\<lambda>t m. m(table_name t \<mapsto> deps_of t)) tables m n = m n"
  by (induction tables arbitrary: m) auto

lemma fold_table_deps_distinct:
  "distinct (map table_name tables) \<Longrightarrow> t \<in> set tables \<Longrightarrow>
   fold (\<lambda>t m. m(table_name t \<mapsto> deps_of t)) tables m (table_name t) = Some (deps_of t)"
proof (induction tables arbitrary: m)
  case Nil
  then show ?case by simp
next
  case (Cons a tables)
  show ?case
  proof (cases "t = a")
    case True
    then have "table_name t \<notin> set (map table_name tables)"
      using Cons.prems(1) by simp
    then have "fold (\<lambda>t m. m(table_name t \<mapsto> deps_of t)) tables (m(table_name a \<mapsto> deps_of a)) (table_name t)
        = (m(table_name a \<mapsto> deps_of a)) (table_name t)"
      by (rule fold_table_deps_other)
    then show ?thesis
      unfolding True by (simp only: fold.simps o_apply fun_upd_same)
  next
    case False
    then have "t \<in> set tables" and "distinct (map table_name tables)"
      using Cons.prems by simp_all
    then show ?thesis
      by (simp only: fold.simps o_apply Cons.IH)
  qed
qed

lemma lookup_deps_distinct:
  "distinct (map table_name tables) \<Longrightarrow> t \<in> set tables \<Longrightarrow>
   lookup_deps (table_deps tables) (table_name t) = deps_of t"
  by (simp add: lookup_deps_def table_deps_def fold_table_deps_distinct)

lemma takeWhile_upto_first:
  "u \<notin> set ps \<Longrightarrow> takeWhile (\<lambda>x. x \<noteq> u) (ps @ u # ss) = ps"
  by (induction ps) auto

lemma picked_precedes:
  assumes picked: "\<forall>ps u ss. picked = ps @ u # ss \<longrightarrow> deps u \<inter> S \<subseteq> set ps"
    and dist: "distinct (picked @ rest)"
    and u: "u \<in> set picked" and d: "d \<in> deps u" "d \<in> S"
  shows "precedes (picked @ rest) d u"
proof -
  from u obtain ps ss where split: "picked = ps @ u # ss"
    by (auto dest: split_list)
  then have "d \<in> set ps"
    using picked d by blast
  moreover have "u \<notin> set ps"
    using dist split by simp
  then have "takeWhile (\<lambda>x. x \<noteq> u) (picked @ rest) = ps"
    using takeWhile_upto_first [of u ps "ss @ rest"] split by simp
  ultimately show ?thesis
    using u by (simp add: precedes_def)
qed

lemma acyclic_no_stuck:
  assumes "acyclic E" and "finite E"
    and stuck: "\<forall>x \<in> set rest. \<exists>d \<in> set rest. (d, x) \<in> E"
  shows "rest = []"
proof (rule ccontr)
  assume "rest \<noteq> []"
  then obtain x where x: "x \<in> set rest"
    by (cases rest) auto
  have "wf E"
    using assms(1,2) by (rule finite_acyclic_wf [rotated])
  then obtain z where z: "z \<in> set rest" "\<forall>y. (y, z) \<in> E \<longrightarrow> y \<notin> set rest"
    using x by (auto simp add: wf_eq_minimal)
  then show False
    using stuck by blast
qed

lemma finite_dep_edges: "finite (dep_edges tables)"
proof -
  have "dep_edges tables \<subseteq> set (map table_name tables) \<times> set (map table_name tables)"
    by (auto simp add: dep_edges_def)
  then show ?thesis
    by (rule finite_subset) simp
qed

lemma ordered_tables_shape:
  assumes "set_order tables order"
  shows "\<exists>picked rest. ordered_tables_of order tables = picked @ rest
     \<and> distinct (picked @ rest) \<and> set (picked @ rest) = set (map table_name tables)
     \<and> rest = filter (\<lambda>x. x \<in> set rest) order
     \<and> (\<forall>x \<in> set rest. lookup_deps (table_deps tables) x \<inter> set rest \<noteq> {})
     \<and> (\<forall>ps u ss. picked = ps @ u # ss \<longrightarrow>
           lookup_deps (table_deps tables) u \<inter> set (map table_name tables) \<subseteq> set ps)"
proof -
  have "distinct order" and names: "set order = set (map table_name tables)"
    using assms by (simp_all add: set_order_def)
  from topo_loop_shape [OF this(1), of "lookup_deps (table_deps tables)" "[]"]
  show ?thesis
    unfolding ordered_tables_of_def names by simp
qed

text \<open>
  Claim C2, as the code has it.  Self-references are left out of the dependency sets.  For
  every iteration order of the Python set \<^verbatim>\<open>remaining\<close>, the loop ends with every table
  name exactly once.  If the dependency graph is acyclic, every dependency of a table that
  is itself in the catalog stands before that table.  In general the result is the tables
  picked while some table was ready, each after its dependencies, followed by the tables
  left when none was ready (every one of them waits for another one of them): these come
  in the iteration order of the set, not in the order of the input.
\<close>

theorem dependency_order:
  assumes "set_order tables order"
  shows "(\<forall>t \<in> set tables. table_name t \<notin> deps_of t)
    \<and> distinct (ordered_tables_of order tables)
    \<and> set (ordered_tables_of order tables) = set (map table_name tables)
    \<and> (acyclic (dep_edges tables) \<longrightarrow>
        (\<forall>d u. (d, u) \<in> dep_edges tables \<longrightarrow> precedes (ordered_tables_of order tables) d u))
    \<and> (acyclic (dep_edges tables) \<and> distinct (map table_name tables) \<longrightarrow>
        (\<forall>t \<in> set tables. \<forall>d \<in> deps_of t. d \<in> set (map table_name tables) \<longrightarrow>
           precedes (ordered_tables_of order tables) d (table_name t)))
    \<and> (\<exists>picked rest. ordered_tables_of order tables = picked @ rest
        \<and> rest = filter (\<lambda>x. x \<in> set rest) order
        \<and> (\<forall>x \<in> set rest. lookup_deps (table_deps tables) x \<inter> set rest \<noteq> {})
        \<and> (\<forall>u \<in> set picked. \<forall>d. (d, u) \<in> dep_edges tables \<longrightarrow>
              precedes (ordered_tables_of order tables) d u))"
proof -
  let ?out = "ordered_tables_of order tables"
  let ?deps = "lookup_deps (table_deps tables)"
  let ?names = "set (map table_name tables)"
  from ordered_tables_shape [OF assms] obtain picked rest where shape:
    "?out = picked @ rest" "distinct (picked @ rest)" "set (picked @ rest) = ?names"
    "rest = filter (\<lambda>x. x \<in> set rest) order"
    "\<forall>x \<in> set rest. ?deps x \<inter> set rest \<noteq> {}"
    "\<forall>ps u ss. picked = ps @ u # ss \<longrightarrow> ?deps u \<inter> ?names \<subseteq> set ps"
    by blast
  have self: "\<forall>t \<in> set tables. table_name t \<notin> deps_of t"
    by (simp add: deps_of_iff)
  have once: "distinct ?out" "set ?out = ?names"
    using shape(1-3) by simp_all
  have picked: "precedes ?out d u" if "u \<in> set picked" "(d, u) \<in> dep_edges tables" for d u
  proof -
    have "d \<in> ?deps u" "d \<in> ?names"
      using that(2) by (simp_all add: dep_edges_def)
    then show ?thesis
      unfolding shape(1) using shape(6) shape(2) that(1) by (intro picked_precedes)
  qed
  have none_left: "rest = []" if "acyclic (dep_edges tables)"
  proof (rule acyclic_no_stuck [OF that finite_dep_edges])
    show "\<forall>x \<in> set rest. \<exists>d \<in> set rest. (d, x) \<in> dep_edges tables"
    proof
      fix x assume x: "x \<in> set rest"
      then obtain d where d: "d \<in> ?deps x" "d \<in> set rest"
        using shape(5) by blast
      have "x \<in> ?names" "d \<in> ?names"
        using x d(2) shape(3) by auto
      then have "(d, x) \<in> dep_edges tables"
        using d(1) by (simp add: dep_edges_def)
      then show "\<exists>d \<in> set rest. (d, x) \<in> dep_edges tables"
        using d(2) by blast
    qed
  qed
  have topo: "precedes ?out d u" if "acyclic (dep_edges tables)" "(d, u) \<in> dep_edges tables" for d u
  proof -
    have "u \<in> ?names"
      using that(2) by (simp add: dep_edges_def)
    then have "u \<in> set picked"
      using shape(3) none_left [OF that(1)] by simp
    then show ?thesis
      using that(2) by (rule picked)
  qed
  have topo_tables: "precedes ?out d (table_name t)"
    if "acyclic (dep_edges tables)" "distinct (map table_name tables)"
      "t \<in> set tables" "d \<in> deps_of t" "d \<in> ?names" for t d
  proof -
    have "?deps (table_name t) = deps_of t"
      using that(2,3) by (rule lookup_deps_distinct)
    then have "(d, table_name t) \<in> dep_edges tables"
      using that(3-5) by (simp add: dep_edges_def)
    then show ?thesis
      using that(1) topo by blast
  qed
  have split: "\<exists>picked rest. ?out = picked @ rest
        \<and> rest = filter (\<lambda>x. x \<in> set rest) order
        \<and> (\<forall>x \<in> set rest. ?deps x \<inter> set rest \<noteq> {})
        \<and> (\<forall>u \<in> set picked. \<forall>d. (d, u) \<in> dep_edges tables \<longrightarrow> precedes ?out d u)"
    using shape(1,4,5) picked by blast
  show ?thesis
    using self once topo topo_tables split by blast
qed

lemmas catalog_eval =
  chain_catalog_def cycle_catalog_def mk_table_def table_deps_def deps_of_def add_dep_def
  lookup_deps_def ready_def ordered_tables_of_def set_order_def precedes_def

lemma chain_catalog_order:
  "ordered_tables_of [''C'', ''B'', ''A''] chain_catalog = [''A'', ''B'', ''C'']"
  by (simp add: catalog_eval topo_loop.simps)

lemma chain_catalog_acyclic: "acyclic (dep_edges chain_catalog)"
proof (rule acyclicI_order [where f = "\<lambda>n. if n = ''A'' then 2 else if n = ''B'' then 1 else (0::nat)"])
  fix d u
  assume "(d, u) \<in> dep_edges chain_catalog"
  then have "(d, u) = (''A'', ''B'') \<or> (d, u) = (''B'', ''C'')"
    by (auto simp add: dep_edges_def catalog_eval split: if_splits)
  then show "(if u = ''A'' then 2 else if u = ''B'' then 1 else (0::nat))
      < (if d = ''A'' then 2 else if d = ''B'' then 1 else 0)"
    by auto
qed

text \<open>
  The theorem at the chain \<open>A\<close>, \<open>B\<close> (refers to \<open>A\<close>), \<open>C\<close> (refers to \<open>B\<close>), with a set
  that iterates \<open>C\<close>, \<open>B\<close>, \<open>A\<close>: the order is \<open>A\<close>, \<open>B\<close>, \<open>C\<close>.
\<close>

theorem dependency_order_witness:
  "set_order chain_catalog [''C'', ''B'', ''A'']
   \<and> acyclic (dep_edges chain_catalog)
   \<and> distinct (map table_name chain_catalog)
   \<and> ordered_tables_of [''C'', ''B'', ''A''] chain_catalog = [''A'', ''B'', ''C'']
   \<and> precedes (ordered_tables_of [''C'', ''B'', ''A''] chain_catalog) ''A'' ''B''
   \<and> precedes (ordered_tables_of [''C'', ''B'', ''A''] chain_catalog) ''B'' ''C''"
proof -
  have so: "set_order chain_catalog [''C'', ''B'', ''A'']"
    by (auto simp add: catalog_eval)
  have dist: "distinct (map table_name chain_catalog)"
    by (simp add: catalog_eval)
  have b: "mk_table ''B'' [''A''] \<in> set chain_catalog" "''A'' \<in> deps_of (mk_table ''B'' [''A''])"
      "''A'' \<in> set (map table_name chain_catalog)" "table_name (mk_table ''B'' [''A'']) = ''B''"
    by (simp_all add: catalog_eval)
  have c: "mk_table ''C'' [''B''] \<in> set chain_catalog" "''B'' \<in> deps_of (mk_table ''C'' [''B''])"
      "''B'' \<in> set (map table_name chain_catalog)" "table_name (mk_table ''C'' [''B'']) = ''C''"
    by (simp_all add: catalog_eval)
  from dependency_order [OF so] chain_catalog_acyclic dist
  have "\<forall>t \<in> set chain_catalog. \<forall>d \<in> deps_of t. d \<in> set (map table_name chain_catalog) \<longrightarrow>
           precedes (ordered_tables_of [''C'', ''B'', ''A''] chain_catalog) d (table_name t)"
    by blast
  then have "precedes (ordered_tables_of [''C'', ''B'', ''A''] chain_catalog) ''A'' ''B''"
    and "precedes (ordered_tables_of [''C'', ''B'', ''A''] chain_catalog) ''B'' ''C''"
    using b c by metis+
  then show ?thesis
    using so chain_catalog_acyclic dist chain_catalog_order by simp
qed

text \<open>
  The claim as stated fails on a cycle.  The catalog lists \<open>A\<close>, \<open>B\<close>, \<open>C\<close>, where \<open>A\<close> and
  \<open>B\<close> refer to each other.  With a set that iterates \<open>B\<close>, \<open>A\<close>, \<open>C\<close> the loop emits
  \<open>C\<close> and then finds no table ready; it appends the set as it iterates, \<open>B\<close> before \<open>A\<close>,
  which is not the order of the input.
\<close>

theorem cycle_order_counterexample:
  "set_order cycle_catalog [''B'', ''A'', ''C'']
   \<and> map table_name cycle_catalog = [''A'', ''B'', ''C'']
   \<and> ordered_tables_of [''B'', ''A'', ''C''] cycle_catalog = [''C'', ''B'', ''A'']
   \<and> \<not> precedes (ordered_tables_of [''B'', ''A'', ''C''] cycle_catalog) ''A'' ''B''"
  by (auto simp add: catalog_eval topo_loop.simps)

section \<open>Properties of the convergence detector\<close>

lemma check_rounds_Nil: "check_rounds required [] st = st"
  by (simp add: check_rounds_def)

lemma check_rounds_snoc:
  "check_rounds required (fps @ [fp]) st = check_stability required fp (check_rounds required fps st)"
  by (simp add: check_rounds_def)

lemma check_rounds_agree:
  "prev_fingerprint st \<noteq> Some fp \<Longrightarrow>
   check_rounds required (replicate (Suc k) fp) st =
     \<lparr>prev_fingerprint = Some fp, stable_rounds = int (Suc k), satisfied = (required \<le> int (Suc k))\<rparr>"
proof (induction k)
  case 0
  then show ?case
    by (auto simp add: check_rounds_def check_stability_def Let_def)
next
  case (Suc k)
  have "replicate (Suc (Suc k)) fp = replicate (Suc k) fp @ [fp]"
    by (metis replicate_Suc replicate_append_same)
  then have "check_rounds required (replicate (Suc (Suc k)) fp) st =
      check_stability required fp (check_rounds required (replicate (Suc k) fp) st)"
    by (simp only: check_rounds_snoc)
  also have "\<dots> = \<lparr>prev_fingerprint = Some fp, stable_rounds = int (Suc (Suc k)),
      satisfied = (required \<le> int (Suc (Suc k)))\<rparr>"
    by (simp only: Suc.IH [OF Suc.prems]) (simp add: check_stability_def Let_def)
  finally show ?case .
qed

text \<open>
  Claim C3.  One round of the check increments \<^verbatim>\<open>stable_rounds\<close> when the new fingerprint
  equals the previous one and sets it to 1 otherwise, which includes the first round, where
  the previous fingerprint is \<^verbatim>\<open>None\<close>; \<^verbatim>\<open>satisfied\<close> is exactly
  \<^verbatim>\<open>stable_rounds >= stable_rounds_required\<close>.  For a run of identical fingerprints that
  starts at a mismatch (or at the first round), the counter after round \<open>k\<close> is \<open>k\<close>, so
  stability holds at round \<open>k\<close> exactly when \<open>k\<close> has reached the required number of rounds:
  not before, and at every later round of the run.
\<close>

theorem convergence_counter:
  fixes st :: "'f conv_state" and fp :: 'f
  shows "stable_rounds (check_stability required fp st) =
           (if prev_fingerprint st = Some fp then stable_rounds st + 1 else 1)
       \<and> stable_rounds (check_stability required fp (conv_init :: 'f conv_state)) = 1
       \<and> satisfied (check_stability required fp st) =
           (required \<le> stable_rounds (check_stability required fp st))
       \<and> (prev_fingerprint st \<noteq> Some fp \<longrightarrow>
           stable_rounds (check_rounds required (replicate (Suc k) fp) st) = int (Suc k) \<and>
           satisfied (check_rounds required (replicate (Suc k) fp) st) = (required \<le> int (Suc k)))
       \<and> stable_rounds (check_rounds required (replicate (Suc k) fp) (conv_init :: 'f conv_state)) =
           int (Suc k)
       \<and> satisfied (check_rounds required (replicate (Suc k) fp) (conv_init :: 'f conv_state)) =
           (required \<le> int (Suc k))"
proof -
  have one: "stable_rounds (check_stability required fp st) =
           (if prev_fingerprint st = Some fp then stable_rounds st + 1 else 1)"
    by (auto simp add: check_stability_def Let_def)
  have first: "stable_rounds (check_stability required fp (conv_init :: 'f conv_state)) = 1"
    by (simp add: check_stability_def conv_init_def Let_def)
  have sat: "satisfied (check_stability required fp st) =
           (required \<le> stable_rounds (check_stability required fp st))"
    by (simp add: check_stability_def Let_def)
  have run: "stable_rounds (check_rounds required (replicate (Suc k) fp) st) = int (Suc k) \<and>
           satisfied (check_rounds required (replicate (Suc k) fp) st) = (required \<le> int (Suc k))"
    if "prev_fingerprint st \<noteq> Some fp"
    by (simp only: check_rounds_agree [OF that] conv_state.simps simp_thms)
  have fresh: "prev_fingerprint (conv_init :: 'f conv_state) \<noteq> Some fp"
    by (simp add: conv_init_def)
  have run0: "stable_rounds (check_rounds required (replicate (Suc k) fp) (conv_init :: 'f conv_state)) =
           int (Suc k)
       \<and> satisfied (check_rounds required (replicate (Suc k) fp) (conv_init :: 'f conv_state)) =
           (required \<le> int (Suc k))"
    by (simp only: check_rounds_agree [OF fresh] conv_state.simps simp_thms)
  from one first sat run run0 show ?thesis
    by blast
qed

text \<open>
  The theorem at a concrete run: two rounds are required, the fingerprint 7 arrives three
  times after a round that delivered 5.  Stability does not hold after the first 7, holds
  after the second and still holds after the third.
\<close>

theorem convergence_counter_witness:
  "prev_fingerprint (check_stability 2 (5::nat) conv_init) \<noteq> Some 7
   \<and> \<not> satisfied (check_rounds 2 (replicate 1 (7::nat)) (check_stability 2 5 conv_init))
   \<and> satisfied (check_rounds 2 (replicate 2 (7::nat)) (check_stability 2 5 conv_init))
   \<and> satisfied (check_rounds 2 (replicate 3 (7::nat)) (check_stability 2 5 conv_init))
   \<and> stable_rounds (check_rounds 2 (replicate 3 (7::nat)) (check_stability 2 5 conv_init)) = 3"
proof -
  have h: "prev_fingerprint (check_stability 2 (5::nat) conv_init) \<noteq> Some 7"
    by (simp add: check_stability_def conv_init_def Let_def)
  show ?thesis
    using h
      convergence_counter [of 2 7 "check_stability 2 (5::nat) conv_init" 0]
      convergence_counter [of 2 7 "check_stability 2 (5::nat) conv_init" 1]
      convergence_counter [of 2 7 "check_stability 2 (5::nat) conv_init" 2]
    by (simp add: numeral_2_eq_2 numeral_3_eq_3)
qed

section \<open>Properties of the fingerprint\<close>

lemma map_insort_key_comp:
  "map g (insort_key (\<lambda>x. h (g x)) x xs) = insort_key h (g x) (map g xs)"
  by (induction xs) auto

lemma map_sort_key_comp:
  "map g (sort_key (\<lambda>x. h (g x)) xs) = sort_key h (map g xs)"
  by (induction xs) (simp_all add: map_insort_key_comp)

lemma table_name_entry: "table_name = (\<lambda>t. fst (table_entry t))"
  by (auto simp add: table_entry_def)

lemma build_fingerprint_entries:
  "build_fingerprint ts = sort_key fst (map table_entry ts)"
  unfolding build_fingerprint_def by (subst table_name_entry) (rule map_sort_key_comp)

lemma mset_build_fingerprint:
  "mset (build_fingerprint ts) = image_mset table_entry (mset ts)"
  by (simp add: build_fingerprint_def)

lemma build_fingerprint_permute:
  assumes "distinct (map table_name ts)" "mset ts' = mset ts"
  shows "build_fingerprint ts' = build_fingerprint ts"
proof -
  have "inj_on table_name (set ts')"
    using assms by (metis distinct_map mset_eq_setD)
  then have "sort_key table_name ts' = sort_key table_name ts"
    using assms(2) by (intro sort_key_inj_key_eq) simp_all
  then show ?thesis
    by (simp add: build_fingerprint_def)
qed

lemma build_fingerprint_update:
  assumes "i < length ts"
  shows "build_fingerprint (ts[i := t']) = build_fingerprint ts \<longleftrightarrow> table_entry t' = table_entry (ts ! i)"
proof
  assume eq: "build_fingerprint (ts[i := t']) = build_fingerprint ts"
  have "mset (ts[i := t']) = add_mset t' (mset ts - {#ts ! i#})"
    using assms by (rule mset_update)
  then have "image_mset table_entry (mset (ts[i := t'])) =
      add_mset (table_entry t') (image_mset table_entry (mset ts - {#ts ! i#}))"
    by simp
  moreover have "image_mset table_entry (mset ts) =
      add_mset (table_entry (ts ! i)) (image_mset table_entry (mset ts - {#ts ! i#}))"
    using assms by (metis image_mset_add_mset insert_DiffM nth_mem_mset)
  moreover have "image_mset table_entry (mset (ts[i := t'])) = image_mset table_entry (mset ts)"
    using eq by (simp only: mset_build_fingerprint [symmetric])
  ultimately show "table_entry t' = table_entry (ts ! i)"
    by simp
next
  assume "table_entry t' = table_entry (ts ! i)"
  then have "map table_entry (ts[i := t']) = map table_entry ts"
    using assms by (simp add: map_update list_update_same_conv)
  then show "build_fingerprint (ts[i := t']) = build_fingerprint ts"
    by (simp add: build_fingerprint_entries)
qed

lemma map_swap_neq:
  assumes "a < length xs" "b < length xs" "f (xs ! a) \<noteq> f (xs ! b)"
  shows "map f (swap a b xs) \<noteq> map f xs"
proof
  assume eq: "map f (swap a b xs) = map f xs"
  have "a \<noteq> b"
    using assms(3) by auto
  then have "swap a b xs ! a = xs ! b"
    using assms(1) by (simp add: swap_def)
  moreover have "map f (swap a b xs) ! a = map f xs ! a"
    using eq by simp
  moreover have "length (swap a b xs) = length xs"
    by (simp add: swap_def)
  ultimately show False
    using assms(1,3) by simp
qed

lemma mset_swap_same: "a < length xs \<Longrightarrow> b < length xs \<Longrightarrow> mset (swap a b xs) = mset xs"
  unfolding swap_def by (rule mset_swap)

lemma table_entry_columns:
  "table_entry (t\<lparr>columns := cs\<rparr>) = table_entry t \<longleftrightarrow> map col_name cs = map col_name (columns t)"
  by (auto simp add: table_entry_def)

lemma table_entry_primary_key:
  "table_entry (t\<lparr>primary_key := pk\<rparr>) = table_entry t \<longleftrightarrow> pk = primary_key t"
  by (auto simp add: table_entry_def)

lemma table_entry_foreign_keys:
  "table_entry (t\<lparr>foreign_keys := fks\<rparr>) = table_entry t \<longleftrightarrow>
     map fk_signature fks = map fk_signature (foreign_keys t)"
  by (auto simp add: table_entry_def)

text \<open>
  Claim C5, as the code has it.  Tables with pairwise distinct names may come in any order:
  the fingerprint is the same.  Replacing the column list, the primary key or the foreign
  key list of one table leaves the fingerprint unchanged exactly when the sequence of
  column names, the primary key sequence, or the sequence of foreign key signatures
  \<^verbatim>\<open>(referred_table, constrained_columns, referred_columns)\<close> is unchanged.  So exchanging
  two columns of different names, two different primary key entries or two foreign keys of
  different signatures changes the fingerprint.
\<close>

theorem fingerprint_order:
  "(distinct (map table_name ts) \<and> mset ts' = mset ts \<longrightarrow>
      build_fingerprint ts' = build_fingerprint ts)
   \<and> (i < length ts \<longrightarrow>
       (build_fingerprint (ts[i := (ts ! i)\<lparr>columns := cs\<rparr>]) = build_fingerprint ts
          \<longleftrightarrow> map col_name cs = map col_name (columns (ts ! i)))
     \<and> (build_fingerprint (ts[i := (ts ! i)\<lparr>primary_key := pk\<rparr>]) = build_fingerprint ts
          \<longleftrightarrow> pk = primary_key (ts ! i))
     \<and> (build_fingerprint (ts[i := (ts ! i)\<lparr>foreign_keys := fks\<rparr>]) = build_fingerprint ts
          \<longleftrightarrow> map fk_signature fks = map fk_signature (foreign_keys (ts ! i))))
   \<and> (i < length ts \<and> a < length (columns (ts ! i)) \<and> b < length (columns (ts ! i))
        \<and> col_name (columns (ts ! i) ! a) \<noteq> col_name (columns (ts ! i) ! b) \<longrightarrow>
       build_fingerprint (ts[i := (ts ! i)\<lparr>columns := swap a b (columns (ts ! i))\<rparr>])
         \<noteq> build_fingerprint ts)
   \<and> (i < length ts \<and> a < length (primary_key (ts ! i)) \<and> b < length (primary_key (ts ! i))
        \<and> primary_key (ts ! i) ! a \<noteq> primary_key (ts ! i) ! b \<longrightarrow>
       build_fingerprint (ts[i := (ts ! i)\<lparr>primary_key := swap a b (primary_key (ts ! i))\<rparr>])
         \<noteq> build_fingerprint ts)
   \<and> (i < length ts \<and> a < length (foreign_keys (ts ! i)) \<and> b < length (foreign_keys (ts ! i))
        \<and> fk_signature (foreign_keys (ts ! i) ! a) \<noteq> fk_signature (foreign_keys (ts ! i) ! b) \<longrightarrow>
       build_fingerprint (ts[i := (ts ! i)\<lparr>foreign_keys := swap a b (foreign_keys (ts ! i))\<rparr>])
         \<noteq> build_fingerprint ts)"
proof -
  have perm: "build_fingerprint ts' = build_fingerprint ts"
    if "distinct (map table_name ts)" "mset ts' = mset ts"
    using that by (rule build_fingerprint_permute)
  have cols: "build_fingerprint (ts[i := (ts ! i)\<lparr>columns := cs\<rparr>]) = build_fingerprint ts
      \<longleftrightarrow> map col_name cs = map col_name (columns (ts ! i))" if "i < length ts" for cs
    by (simp only: build_fingerprint_update [OF that] table_entry_columns)
  have pks: "build_fingerprint (ts[i := (ts ! i)\<lparr>primary_key := pk\<rparr>]) = build_fingerprint ts
      \<longleftrightarrow> pk = primary_key (ts ! i)" if "i < length ts" for pk
    by (simp only: build_fingerprint_update [OF that] table_entry_primary_key)
  have fks: "build_fingerprint (ts[i := (ts ! i)\<lparr>foreign_keys := fks\<rparr>]) = build_fingerprint ts
      \<longleftrightarrow> map fk_signature fks = map fk_signature (foreign_keys (ts ! i))" if "i < length ts" for fks
    by (simp only: build_fingerprint_update [OF that] table_entry_foreign_keys)
  have swap_cols: "build_fingerprint (ts[i := (ts ! i)\<lparr>columns := swap a b (columns (ts ! i))\<rparr>])
         \<noteq> build_fingerprint ts"
    if "i < length ts" "a < length (columns (ts ! i))" "b < length (columns (ts ! i))"
      "col_name (columns (ts ! i) ! a) \<noteq> col_name (columns (ts ! i) ! b)"
    using cols [OF that(1)] map_swap_neq [OF that(2,3,4)] by simp
  have swap_pks: "build_fingerprint (ts[i := (ts ! i)\<lparr>primary_key := swap a b (primary_key (ts ! i))\<rparr>])
         \<noteq> build_fingerprint ts"
    if "i < length ts" "a < length (primary_key (ts ! i))" "b < length (primary_key (ts ! i))"
      "primary_key (ts ! i) ! a \<noteq> primary_key (ts ! i) ! b"
    using pks [OF that(1)] map_swap_neq [OF that(2,3), of "\<lambda>x. x"] that(4) by simp
  have swap_fks: "build_fingerprint (ts[i := (ts ! i)\<lparr>foreign_keys := swap a b (foreign_keys (ts ! i))\<rparr>])
         \<noteq> build_fingerprint ts"
    if "i < length ts" "a < length (foreign_keys (ts ! i))" "b < length (foreign_keys (ts ! i))"
      "fk_signature (foreign_keys (ts ! i) ! a) \<noteq> fk_signature (foreign_keys (ts ! i) ! b)"
    using fks [OF that(1)] map_swap_neq [OF that(2,3,4)] by simp
  show ?thesis
    using perm cols pks fks swap_cols swap_pks swap_fks by blast
qed

lemmas fingerprint_eval =
  build_fingerprint_def table_entry_def fk_signature_def orders_def audit_def counted_def
  two_same_name_def swap_def

text \<open>
  The theorem at the catalog \<open>orders\<close>, \<open>audit\<close>: listing the two tables the other way
  round gives the same fingerprint; exchanging the two columns of \<open>orders\<close>, its two
  primary key entries or its two foreign keys gives a different one.
\<close>

theorem fingerprint_order_witness:
  "distinct (map table_name [orders, audit]) \<and> mset [audit, orders] = mset [orders, audit]
   \<and> build_fingerprint [audit, orders] = build_fingerprint [orders, audit]
   \<and> col_name (columns ([orders, audit] ! 0) ! 0) \<noteq> col_name (columns ([orders, audit] ! 0) ! 1)
   \<and> build_fingerprint ([orders, audit][0 := orders\<lparr>columns := swap 0 1 (columns orders)\<rparr>])
        \<noteq> build_fingerprint [orders, audit]
   \<and> build_fingerprint ([orders, audit][0 := orders\<lparr>primary_key := swap 0 1 (primary_key orders)\<rparr>])
        \<noteq> build_fingerprint [orders, audit]
   \<and> build_fingerprint ([orders, audit][0 := orders\<lparr>foreign_keys := swap 0 1 (foreign_keys orders)\<rparr>])
        \<noteq> build_fingerprint [orders, audit]"
proof -
  have d: "distinct (map table_name [orders, audit])"
    by (simp add: orders_def audit_def)
  have m: "mset [audit, orders] = mset [orders, audit]"
    by simp
  have c: "col_name (columns ([orders, audit] ! 0) ! 0) \<noteq> col_name (columns ([orders, audit] ! 0) ! 1)"
    by (simp add: orders_def)
  have p: "primary_key ([orders, audit] ! 0) ! 0 \<noteq> primary_key ([orders, audit] ! 0) ! 1"
    by (simp add: orders_def)
  have f: "fk_signature (foreign_keys ([orders, audit] ! 0) ! 0)
      \<noteq> fk_signature (foreign_keys ([orders, audit] ! 0) ! 1)"
    by (simp add: orders_def fk_signature_def)
  have len: "(0::nat) < length [orders, audit]" "0 < length (columns ([orders, audit] ! 0))"
    "1 < length (columns ([orders, audit] ! 0))" "0 < length (primary_key ([orders, audit] ! 0))"
    "1 < length (primary_key ([orders, audit] ! 0))" "0 < length (foreign_keys ([orders, audit] ! 0))"
    "1 < length (foreign_keys ([orders, audit] ! 0))"
    by (simp_all add: orders_def)
  show ?thesis
    using d m c p f len
      fingerprint_order [of "[orders, audit]" "[audit, orders]" 0 "[]" "[]" "[]" 0 1]
    by simp
qed

text \<open>
  The claim as stated fails where names coincide.  Two tables of the same name that differ
  in their row count keep their input order under the stable sort, so listing them the
  other way round changes the fingerprint.  The two columns of \<open>audit\<close> differ (in their
  type) and so do its two foreign keys (in their \<^verbatim>\<open>ondelete\<close> option), yet exchanging them
  leaves the fingerprint as it is, since it records column names and foreign key
  signatures only.
\<close>

theorem fingerprint_order_counterexample:
  "mset (rev two_same_name) = mset two_same_name
   \<and> build_fingerprint (rev two_same_name) \<noteq> build_fingerprint two_same_name
   \<and> columns audit ! 0 \<noteq> columns audit ! 1
   \<and> build_fingerprint [audit\<lparr>columns := swap 0 1 (columns audit)\<rparr>] = build_fingerprint [audit]
   \<and> foreign_keys audit ! 0 \<noteq> foreign_keys audit ! 1
   \<and> build_fingerprint [audit\<lparr>foreign_keys := swap 0 1 (foreign_keys audit)\<rparr>] = build_fingerprint [audit]"
  by (simp add: fingerprint_eval)

section \<open>Properties of the retry loop\<close>

lemma repair_exchange_fields:
  "last_error (repair_exchange env code st) = last_error st"
  "success (repair_exchange env code st) = success st"
  "attempt (repair_exchange env code st) = attempt st"
  "result_data (repair_exchange env code st) = result_data st"
  "last_output (repair_exchange env code st) = last_output st"
  by (simp_all add: repair_exchange_def)

lemma failed_body:
  assumes "attempt_body env td n st s = (Inr (k, st'), s')" "k \<noteq> Succeeded"
  shows "success st' = success st \<and> attempt st' = n \<and> last_error st' \<noteq> None
    \<and> (k = Insufficient \<longrightarrow> last_error st' = Some (JStr ''LLM returned empty or insufficient code''))
    \<and> (k = ExecutionRaised \<longrightarrow> (\<exists>m. last_error st' = Some (JStr m)) \<and> last_output st' = None)
    \<and> (k = ReportedFailure \<longrightarrow>
          (\<exists>d. result_data st' = JObj d \<and> \<not> truthy_opt (dict_get d ''success'')
             \<and> last_error st' = Some (first_truthy (dict_get d ''error'') (dict_get d ''message'')
                  (JStr ''Task reported failure''))))"
  using assms unfolding attempt_body_def Let_def
  by (auto simp add: repair_exchange_fields split: prod.splits sum.splits if_splits json.splits)

lemma loop_all_fail:
  assumes "length (attempt_ends env td ns st s) = length ns"
    and "Succeeded \<notin> set (attempt_ends env td ns st s)"
  shows "\<exists>st' s'. attempts_loop env td ns st s = (Inr st', s') \<and> success st' = success st
    \<and> (ns = [] \<longrightarrow> st' = st)
    \<and> (ns \<noteq> [] \<longrightarrow> (\<exists>stp sp k. attempt_body env td (last ns) stp sp = (Inr (k, st'), s') \<and> k \<noteq> Succeeded))"
  using assms
proof (induction ns arbitrary: st s)
  case Nil
  then show ?case by simp
next
  case (Cons n ns)
  obtain r s1 where body: "attempt_body env td n st s = (r, s1)"
    by (cases "attempt_body env td n st s")
  show ?case
  proof (cases r)
    case (Inl e)
    then show ?thesis
      using Cons.prems(1) body by simp
  next
    case (Inr p)
    obtain k st1 where p: "p = (k, st1)"
      by (cases p)
    show ?thesis
    proof (cases "k = Succeeded")
      case True
      then show ?thesis
        using Cons.prems(2) body Inr p by simp
    next
      case False
      then have ends: "attempt_ends env td (n # ns) st s = k # attempt_ends env td ns st1 s1"
        and loop: "attempts_loop env td (n # ns) st s = attempts_loop env td ns st1 s1"
        using body Inr p by (cases k; simp)+
      have "length (attempt_ends env td ns st1 s1) = length ns"
        and "Succeeded \<notin> set (attempt_ends env td ns st1 s1)"
        using Cons.prems [unfolded ends] by simp_all
      from Cons.IH [OF this] obtain st' s' where ih:
        "attempts_loop env td ns st1 s1 = (Inr st', s')" "success st' = success st1"
        "ns = [] \<longrightarrow> st' = st1"
        "ns \<noteq> [] \<longrightarrow> (\<exists>stp sp k. attempt_body env td (last ns) stp sp = (Inr (k, st'), s') \<and> k \<noteq> Succeeded)"
        by blast
      have s1: "success st1 = success st"
        using failed_body [of env td n st s k st1 s1] body Inr p False by simp
      have "\<exists>stp sp k. attempt_body env td (last (n # ns)) stp sp = (Inr (k, st'), s') \<and> k \<noteq> Succeeded"
      proof (cases "ns = []")
        case True
        then have "st' = st1" "s' = s1"
          using ih(1,3) by simp_all
        then show ?thesis
          using True body Inr p False by auto
      next
        case False
        then show ?thesis
          using ih(4) by simp
      qed
      then show ?thesis
        using loop ih(1,2) s1 by simp
    qed
  qed
qed

text \<open>
  What the loop gives when each of the passes 1 to \<open>N\<close> returns and ends as a failure (with
  insufficient code, with an exception inside the \<^verbatim>\<open>try\<close>, or with an envelope that does not
  report success): \<^verbatim>\<open>execute_task\<close> returns, the outcome has \<^verbatim>\<open>success\<close> false and
  \<^verbatim>\<open>attempts\<close> equal to \<open>N\<close>, and for \<open>N > 0\<close> its \<^verbatim>\<open>last_error\<close> is the error that the last
  pass recorded.
\<close>

lemma exhaustion_when_passes_return:
  assumes "0 \<le> N"
    and "length (attempt_ends env td [1..N] task_init s) = nat N"
    and "Succeeded \<notin> set (attempt_ends env td [1..N] task_init s)"
  shows "\<exists>r s'. execute_task env N tid td s = (Inr r, s') \<and> \<not> out_success r \<and> out_attempts r = N
     \<and> (0 < N \<longrightarrow> out_last_error r \<noteq> None
          \<and> (\<exists>stp sp k st'. attempt_body env td N stp sp = (Inr (k, st'), s') \<and> k \<noteq> Succeeded
                \<and> out_last_error r = last_error st' \<and> out_result r = result_data st'))"
proof -
  have len: "length (attempt_ends env td [1..N] task_init s) = length [1..N]"
    using assms(1,2) by simp
  from loop_all_fail [OF len assms(3)] obtain st' s' where loop:
    "attempts_loop env td [1..N] task_init s = (Inr st', s')" "success st' = success task_init"
    "[1..N] = [] \<longrightarrow> st' = task_init"
    "[1..N] \<noteq> [] \<longrightarrow> (\<exists>stp sp k. attempt_body env td (last [1..N]) stp sp = (Inr (k, st'), s') \<and> k \<noteq> Succeeded)"
    by blast
  let ?r = "\<lparr>out_task_id = tid, out_success = success st', out_attempts = attempt st',
     out_result = result_data st', out_last_error = (if \<not> success st' then last_error st' else None)\<rparr>"
  have run: "execute_task env N tid td s = (Inr ?r, s')"
    using loop(1) by (simp add: execute_task_def)
  have fail: "\<not> success st'"
    using loop(2) by (simp add: task_init_def)
  have count: "attempt st' = N"
  proof (cases "0 < N")
    case True
    then have "[1..N] \<noteq> []" "last [1..N] = N"
      by (simp_all add: upto_rec2)
    then obtain stp sp k where "attempt_body env td N stp sp = (Inr (k, st'), s')" "k \<noteq> Succeeded"
      using loop(4) by auto
    then show ?thesis
      using failed_body by blast
  next
    case False
    then have "N = 0" "[1..N] = []"
      using assms(1) by simp_all
    then show ?thesis
      using loop(3) by (simp add: task_init_def)
  qed
  have last: "out_last_error ?r \<noteq> None
          \<and> (\<exists>stp sp k st''. attempt_body env td N stp sp = (Inr (k, st''), s') \<and> k \<noteq> Succeeded
                \<and> out_last_error ?r = last_error st'' \<and> out_result ?r = result_data st'')" if "0 < N"
  proof -
    have "[1..N] \<noteq> []" "last [1..N] = N"
      using that by (simp_all add: upto_rec2)
    then obtain stp sp k where body: "attempt_body env td N stp sp = (Inr (k, st'), s')" "k \<noteq> Succeeded"
      using loop(4) by auto
    then have "last_error st' \<noteq> None"
      using failed_body by blast
    then show ?thesis
      using body fail by auto
  qed
  show ?thesis
    using run fail count last by (intro exI [of _ ?r] exI [of _ s']) simp
qed

lemma sample_code_extracted: "worker_extract_code sample_code = sample_code"
  by (simp add: sample_code_def extract_eval)

lemma sample_code_sufficient: "sample_code \<noteq> [] \<and> \<not> length (strip sample_code) < 50"
  by (simp add: sample_code_def strip_def is_space_def)

lemma boom_output_parsed:
  "parse_task_result (decoding boom_text boom_value) boom_output =
     Inr (JObj [(''success'', JBool False), (''error'', JStr ''boom'')])"
  by (simp add: boom_output_def boom_text_def boom_value_def envelope_eval)

lemma num_output_parsed:
  "parse_task_result (decoding num_text num_value) num_output =
     Inr (JObj [(''success'', JBool False), (''error'', JNum 42)])"
  by (simp add: num_output_def num_text_def num_value_def envelope_eval)

lemmas worker_eval =
  attempt_body_def ask_llm_for_code_def worker_messages_def worker_window_def last_n_def
  session_execute_def repair_exchange_def task_init_def execute_task_def sample_env_def
  started_def truthy_opt_def first_truthy_def dict_get_def error_context_def str_of_def
  sample_code_extracted sample_code_sufficient Let_def

lemma boom_run_ends:
  "attempt_ends boom_env ''t'' [1..2] task_init started = [ExecutionRaised, ReportedFailure]"
  by (simp add: boom_env_def worker_eval boom_output_parsed upto_rec1)

lemma boom_run_outcome:
  "fst (execute_task boom_env 2 ''id'' ''t'' started) =
     Inr \<lparr>out_task_id = ''id'', out_success = False, out_attempts = 2, out_result = boom_value,
          out_last_error = Some (JStr ''boom'')\<rparr>"
  by (simp add: boom_env_def worker_eval boom_output_parsed upto_rec1) (simp add: boom_value_def)

text \<open>
  Claim C1 does not hold of the code.  Let the kernel print the envelope
  \<^verbatim>\<open>{"success": false, "error": 42}\<close> at every execution, so that no attempt can succeed,
  and let \<^verbatim>\<open>max_attempts\<close> be any number from 2 on (\<open>2 + n\<close>).  The first pass ends as a
  reported failure and keeps the number 42 as \<^verbatim>\<open>last_error\<close> (line 182).  Building the
  request of the second attempt slices it, \<^verbatim>\<open>last_error[:1500]\<close> (line 335), outside the
  \<^verbatim>\<open>try\<close>: a \<^verbatim>\<open>TypeError\<close> leaves \<^verbatim>\<open>execute_task\<close> after one execution.  No outcome is
  returned: there is no \<^verbatim>\<open>attempts\<close> that equals \<^verbatim>\<open>max_attempts\<close> and no \<^verbatim>\<open>last_error\<close>.
\<close>

theorem execute_task_raises:
  "execute_task num_env (2 + int n) task_id task_description started =
     (Inl (TypeError (quoted ''int'' @ '' object is not subscriptable'')),
      \<lparr>world = 1, kernel = Some True, events = [Executed]\<rparr>)
   \<and> attempt_ends num_env task_description [1..2 + int n] task_init started = [ReportedFailure]"
proof -
  have range: "[1..2 + int n] = 1 # 2 # [3..2 + int n]"
    by (simp add: upto_rec1)
  have first: "attempt_body num_env task_description 1 task_init started =
      (Inr (ReportedFailure,
         repair_exchange num_env sample_code
           (task_init\<lparr>attempt := 1, last_output := Some num_output, result_data := num_value,
              last_error := Some (JNum 42)\<rparr>)),
       \<lparr>world = 1, kernel = Some True, events = [Executed]\<rparr>)"
    by (simp add: num_env_def worker_eval num_output_parsed) (simp add: num_value_def)
  have second: "attempt_body num_env task_description 2
      (repair_exchange num_env sample_code
         (task_init\<lparr>attempt := 1, last_output := Some num_output, result_data := num_value,
            last_error := Some (JNum 42)\<rparr>))
      \<lparr>world = 1, kernel = Some True, events = [Executed]\<rparr> =
      (Inl (TypeError (quoted ''int'' @ '' object is not subscriptable'')),
       \<lparr>world = 1, kernel = Some True, events = [Executed]\<rparr>)"
    by (simp add: attempt_body_def ask_llm_for_code_def worker_messages_def repair_exchange_def
        task_init_def truthy_opt_def Let_def)
  have "attempts_loop num_env task_description [1..2 + int n] task_init started =
      (Inl (TypeError (quoted ''int'' @ '' object is not subscriptable'')),
       \<lparr>world = 1, kernel = Some True, events = [Executed]\<rparr>)"
    unfolding range
    by (simp only: attempts_loop.simps first second prod.case sum.case attempt_end.case)
  then have raised: "execute_task num_env (2 + int n) task_id task_description started =
      (Inl (TypeError (quoted ''int'' @ '' object is not subscriptable'')),
       \<lparr>world = 1, kernel = Some True, events = [Executed]\<rparr>)"
    by (simp add: execute_task_def)
  have ends: "attempt_ends num_env task_description [1..2 + int n] task_init started = [ReportedFailure]"
    unfolding range
    by (simp only: attempt_ends.simps first second prod.case sum.case attempt_end.case)
  from raised ends show ?thesis
    by (rule conjI)
qed

section \<open>Properties of the execution phase\<close>

lemma runs_only_refl: "runs_only s s"
  by (simp add: runs_only_def)

lemma runs_only_world: "runs_only s (s\<lparr>world := w\<rparr>)"
  by (simp add: runs_only_def)

lemma runs_only_trans: "runs_only s s' \<Longrightarrow> runs_only s' s'' \<Longrightarrow> runs_only s s''"
  by (auto simp add: runs_only_def)

lemma session_execute_runs_only: "session_execute env code s = (r, s') \<Longrightarrow> runs_only s s'"
  by (auto simp add: session_execute_def runs_only_def split: option.splits bool.splits prod.splits)

lemma ask_llm_runs_only:
  "ask_llm_for_code env td n le lo conv s = (r, s') \<Longrightarrow> runs_only s s'"
  by (auto simp add: ask_llm_for_code_def runs_only_def split: sum.splits prod.splits)

lemma attempt_body_runs_only:
  assumes "attempt_body env td n st s = (r, s')"
  shows "runs_only s s'"
proof -
  obtain c s1 where ask: "ask_llm_for_code env td n (last_error (st\<lparr>attempt := n\<rparr>))
      (last_output (st\<lparr>attempt := n\<rparr>)) (conversation (st\<lparr>attempt := n\<rparr>)) s = (c, s1)"
    by (cases "ask_llm_for_code env td n (last_error (st\<lparr>attempt := n\<rparr>))
      (last_output (st\<lparr>attempt := n\<rparr>)) (conversation (st\<lparr>attempt := n\<rparr>)) s")
  then have one: "runs_only s s1"
    by (rule ask_llm_runs_only)
  show ?thesis
  proof (cases c)
    case (Inl e)
    then show ?thesis
      using assms ask one by (simp add: attempt_body_def Let_def)
  next
    case (Inr code)
    obtain x s2 where ex: "session_execute env code s1 = (x, s2)"
      by (cases "session_execute env code s1")
    then have "runs_only s1 s2"
      by (rule session_execute_runs_only)
    then have "runs_only s s2"
      using one runs_only_trans by blast
    then show ?thesis
      using assms ask Inr ex one
      by (auto simp add: attempt_body_def Let_def split: if_splits sum.splits json.splits)
  qed
qed

lemma attempts_loop_runs_only:
  "attempts_loop env td ns st s = (r, s') \<Longrightarrow> runs_only s s'"
proof (induction ns arbitrary: st s)
  case Nil
  then show ?case by (simp add: runs_only_refl)
next
  case (Cons n ns)
  obtain x s1 where body: "attempt_body env td n st s = (x, s1)"
    by (cases "attempt_body env td n st s")
  then have one: "runs_only s s1"
    by (rule attempt_body_runs_only)
  show ?case
  proof (cases x)
    case (Inl e)
    then show ?thesis using Cons.prems body one by simp
  next
    case (Inr p)
    obtain k st1 where p: "p = (k, st1)" by (cases p)
    show ?thesis
    proof (cases "k = Succeeded")
      case True
      then show ?thesis using Cons.prems body Inr p one by simp
    next
      case False
      then have "attempts_loop env td ns st1 s1 = (r, s')"
        using Cons.prems body Inr p by (cases k) simp_all
      then have "runs_only s1 s'"
        by (rule Cons.IH)
      then show ?thesis
        using one runs_only_trans by blast
    qed
  qed
qed

lemma execute_task_runs_only:
  "execute_task env N tid td s = (r, s') \<Longrightarrow> runs_only s s'"
  by (auto simp add: execute_task_def split: prod.splits sum.splits dest: attempts_loop_runs_only)

lemma tasks_loop_runs_only:
  "tasks_loop env N tasks m s = (r, m', s') \<Longrightarrow> runs_only s s'"
proof (induction tasks arbitrary: m s)
  case Nil
  then show ?case by (simp add: runs_only_refl)
next
  case (Cons task tasks)
  obtain tid td where task: "task = (tid, td)" by (cases task)
  obtain x s1 where ex: "execute_task env N tid td s = (x, s1)"
    by (cases "execute_task env N tid td s")
  then have one: "runs_only s s1"
    by (rule execute_task_runs_only)
  show ?case
  proof (cases x)
    case (Inl e)
    then show ?thesis using Cons.prems task ex one by simp
  next
    case (Inr result)
    from Cons.prems task ex Inr
    consider "s' = s1" | m1 where "tasks_loop env N tasks m1 s1 = (r, m', s')"
      by (auto simp add: Let_def split: if_splits option.splits)
    then show ?thesis
    proof cases
      case 1
      then show ?thesis using one by simp
    next
      case 2
      then have "runs_only s1 s'" by (rule Cons.IH)
      then show ?thesis using one runs_only_trans by blast
    qed
  qed
qed

text \<open>
  What the loop leaves when no exception left it: one log entry per task, in order, and
  each task identifier appended to exactly one of the two lists, according to its status.
\<close>

lemma tasks_loop_report:
  "tasks_loop env N tasks m s = (None, m', s') \<Longrightarrow>
   \<exists>entries. execution_log m' = execution_log m @ entries
     \<and> map log_task_id entries = map fst tasks
     \<and> completed_tasks m' = completed_tasks m
          @ map log_task_id (filter (\<lambda>e. log_status e = ''success'') entries)
     \<and> failed_tasks m' = failed_tasks m
          @ map log_task_id (filter (\<lambda>e. log_status e \<noteq> ''success'') entries)"
proof (induction tasks arbitrary: m s)
  case Nil
  then show ?case by simp
next
  case (Cons task tasks)
  obtain tid td where task: "task = (tid, td)" by (cases task)
  obtain x s1 where ex: "execute_task env N tid td s = (x, s1)"
    by (cases "execute_task env N tid td s")
  show ?case
  proof (cases x)
    case (Inl e)
    then show ?thesis using Cons.prems task ex by simp
  next
    case (Inr result)
    define entry where "entry = \<lparr>log_task_id = tid,
        log_status = (if out_success result then ''success'' else ''failed''),
        log_attempts = out_attempts result, log_result = out_result result\<rparr>"
    define m1 where "m1 = (if out_success result
        then m\<lparr>execution_log := execution_log m @ [entry], completed_tasks := completed_tasks m @ [tid]\<rparr>
        else m\<lparr>execution_log := execution_log m @ [entry], failed_tasks := failed_tasks m @ [tid]\<rparr>)"
    have "tasks_loop env N tasks m1 s1 = (None, m', s')"
      using Cons.prems task ex Inr
      by (auto simp add: Let_def m1_def entry_def split: if_splits option.splits)
    from Cons.IH [OF this] obtain entries where ih:
      "execution_log m' = execution_log m1 @ entries" "map log_task_id entries = map fst tasks"
      "completed_tasks m' = completed_tasks m1 @ map log_task_id (filter (\<lambda>e. log_status e = ''success'') entries)"
      "failed_tasks m' = failed_tasks m1 @ map log_task_id (filter (\<lambda>e. log_status e \<noteq> ''success'') entries)"
      by blast
    show ?thesis
    proof (intro exI [of _ "entry # entries"] conjI)
      show "execution_log m' = execution_log m @ entry # entries"
        using ih(1) by (simp add: m1_def)
      show "map log_task_id (entry # entries) = map fst (task # tasks)"
        using ih(2) task by (simp add: entry_def)
      show "completed_tasks m' = completed_tasks m
          @ map log_task_id (filter (\<lambda>e. log_status e = ''success'') (entry # entries))"
        using ih(3) by (simp add: m1_def entry_def)
      show "failed_tasks m' = failed_tasks m
          @ map log_task_id (filter (\<lambda>e. log_status e \<noteq> ''success'') (entry # entries))"
        using ih(4) by (simp add: m1_def entry_def)
    qed
  qed
qed

lemma task_ids_distinct: "distinct task_ids \<and> length task_ids = 4"
  by (simp add: task_ids_def)

text \<open>
  When \<^verbatim>\<open>execute_migration\<close> returns a report, all four tasks were run in order, each is
  counted once, as completed or as failed, and \<^verbatim>\<open>success\<close> says that none failed.
\<close>

lemma execute_migration_report:
  assumes "execute_migration env N describe order tables log0 s0 = ((Inr rep, log'), s')"
  shows "rep_total_tasks rep = 4
    \<and> rep_completed_tasks rep + rep_failed_tasks rep = rep_total_tasks rep
    \<and> rep_completed_tasks rep = length (rep_completed_task_ids rep)
    \<and> rep_failed_tasks rep = length (rep_failed_task_ids rep)
    \<and> rep_success rep = (rep_failed_tasks rep = 0)
    \<and> mset (rep_completed_task_ids rep @ rep_failed_task_ids rep) = mset task_ids
    \<and> set (rep_completed_task_ids rep) \<inter> set (rep_failed_task_ids rep) = {}
    \<and> (\<exists>entries. rep_execution_log rep = log0 @ entries \<and> map log_task_id entries = task_ids)"
proof -
  let ?m0 = "\<lparr>completed_tasks = [], failed_tasks = [], execution_log = log0\<rparr>"
  from assms obtain tasks s1 m s2 where built: "build_mega_tasks describe order tables = Inr tasks"
    and loop: "tasks_loop env N tasks ?m0 s1 = (None, m, s2)"
    and rep: "rep = \<lparr>rep_success = (length (failed_tasks m) = 0), rep_total_tasks = length tasks,
        rep_completed_tasks = length (completed_tasks m), rep_failed_tasks = length (failed_tasks m),
        rep_completed_task_ids = completed_tasks m, rep_failed_task_ids = failed_tasks m,
        rep_execution_log = execution_log m\<rparr>"
    by (auto simp add: execute_migration_def split: prod.splits option.splits sum.splits)
  have ids: "map fst tasks = task_ids"
    using built by (auto simp add: build_mega_tasks_def Let_def comp_def split: if_splits)
  from tasks_loop_report [OF loop] obtain entries where e:
    "execution_log m = log0 @ entries" "map log_task_id entries = task_ids"
    "completed_tasks m = map log_task_id (filter (\<lambda>e. log_status e = ''success'') entries)"
    "failed_tasks m = map log_task_id (filter (\<lambda>e. log_status e \<noteq> ''success'') entries)"
    using ids by auto
  have total: "length tasks = 4"
    using ids task_ids_distinct by (metis length_map)
  have "length entries = 4"
    using e(2) task_ids_distinct by (metis length_map)
  then have sum: "length (completed_tasks m) + length (failed_tasks m) = 4"
    using e(3,4) sum_length_filter_compl [of "\<lambda>e. log_status e = ''success''" entries] by simp
  have "mset (completed_tasks m @ failed_tasks m) = image_mset log_task_id (mset entries)"
    using e(3,4) by (simp flip: image_mset_union)
  then have parts: "mset (completed_tasks m @ failed_tasks m) = mset task_ids"
    using e(2) by (metis mset_map)
  then have "distinct (completed_tasks m @ failed_tasks m)"
    using task_ids_distinct by (metis mset_eq_imp_distinct_iff)
  then have disj: "set (completed_tasks m) \<inter> set (failed_tasks m) = {}"
    by simp
  show ?thesis
    using rep total sum parts disj e(1,2) by simp
qed

lemmas migration_eval =
  execute_migration_def start_kernel_def session_start_def shutdown_kernel_def
  session_shutdown_def build_mega_tasks_def task_ids_def print_last_error_def fresh_def
  executor_max_attempts_def quoted_def

text \<open>
  Claim C6 at two runs in which the kernel prints an envelope whose \<^verbatim>\<open>error\<close> is the number 42,
  on any catalog.  In the first every execution prints it: the first attempt of the first
  task fails, and building the prompt of the second attempt slices the number (line 335)
  and raises.  In the second the first six executions raise and the seventh prints it: the
  first task fails all 7 attempts and is recorded as failed, and printing its error (line
  668) slices the number and raises.  In both runs a \<^verbatim>\<open>TypeError\<close> leaves
  \<^verbatim>\<open>execute_migration\<close>: there is no report, and the tasks 2, 3 and 4 are never attempted
  (the session saw 1 and 7 executions and was then shut down).  On a catalog with a foreign
  key whose \<^verbatim>\<open>referred_table\<close> is \<^verbatim>\<open>null\<close> the run ends before: building the tasks raises (line
  559) and no task is attempted.
\<close>

theorem execute_migration_abort:
  "execute_migration num_env executor_max_attempts describe order tables [] fresh =
     (if null_reference tables then
        ((Inl (no_attribute ''NoneType'' ''upper''), []),
         \<lparr>world = 0, kernel = None, events = [Started, Shutdown]\<rparr>)
      else
        ((Inl (TypeError (quoted ''int'' @ '' object is not subscriptable'')), []),
         \<lparr>world = 1, kernel = None, events = [Started, Executed, Shutdown]\<rparr>))
   \<and> execute_migration late_num_env executor_max_attempts describe order tables [] fresh =
     (if null_reference tables then
        ((Inl (no_attribute ''NoneType'' ''upper''), []),
         \<lparr>world = 0, kernel = None, events = [Started, Shutdown]\<rparr>)
      else
        ((Inl (TypeError (quoted ''int'' @ '' object is not subscriptable'')),
          [\<lparr>log_task_id = ''1_setup_and_create_tables'', log_status = ''failed'', log_attempts = 7,
             log_result = JObj [(''success'', JBool False), (''error'', JNum 42)]\<rparr>]),
         \<lparr>world = 7, kernel = None,
            events = [Started, Executed, Executed, Executed, Executed, Executed, Executed, Executed, Shutdown]\<rparr>))"
proof (cases "null_reference tables")
  case True
  have one: "execute_migration num_env executor_max_attempts describe order tables [] fresh =
        ((Inl (no_attribute ''NoneType'' ''upper''), []),
         \<lparr>world = 0, kernel = None, events = [Started, Shutdown]\<rparr>)"
    using True by (auto simp add: migration_eval num_env_def sample_env_def Let_def)
  have two: "execute_migration late_num_env executor_max_attempts describe order tables [] fresh =
        ((Inl (no_attribute ''NoneType'' ''upper''), []),
         \<lparr>world = 0, kernel = None, events = [Started, Shutdown]\<rparr>)"
    using True by (auto simp add: migration_eval late_num_env_def sample_env_def Let_def)
  from one two True show ?thesis
    by (simp only: if_True)
next
  case False
  have one: "execute_migration num_env executor_max_attempts describe order tables [] fresh =
     ((Inl (TypeError (quoted ''int'' @ '' object is not subscriptable'')), []),
      \<lparr>world = 1, kernel = None, events = [Started, Executed, Shutdown]\<rparr>)"
    using False by (auto simp add: migration_eval num_env_def worker_eval num_output_parsed upto_rec1)
  have two: "execute_migration late_num_env executor_max_attempts describe order tables [] fresh =
     ((Inl (TypeError (quoted ''int'' @ '' object is not subscriptable'')),
       [\<lparr>log_task_id = ''1_setup_and_create_tables'', log_status = ''failed'', log_attempts = 7,
          log_result = JObj [(''success'', JBool False), (''error'', JNum 42)]\<rparr>]),
      \<lparr>world = 7, kernel = None,
         events = [Started, Executed, Executed, Executed, Executed, Executed, Executed, Executed, Shutdown]\<rparr>)"
    using False by (auto simp add: migration_eval late_num_env_def worker_eval num_output_parsed upto_rec1)
  from one two False show ?thesis
    by (simp only: if_False)
qed

section \<open>Properties of the discovery phase\<close>

lemma analyzer_ask_runs_only:
  "analyzer_ask env db n le turns s = (r, s') \<Longrightarrow> runs_only s s'"
  by (auto simp add: analyzer_ask_def runs_only_def split: sum.splits prod.splits)

lemma execute_and_parse_runs_only:
  "execute_and_parse env decode code s = (r, s') \<Longrightarrow> runs_only s s'"
  by (auto simp add: execute_and_parse_def split: sum.splits prod.splits
      dest: session_execute_runs_only)

lemma analysis_round_runs_only:
  assumes "analysis_round env decode db required st s = (r, st', s')"
  shows "runs_only s s'"
proof -
  obtain c s1 where ask:
    "analyzer_ask env db (iteration st) (recent_error st) (dialogue st) s = (c, s1)"
    by (cases "analyzer_ask env db (iteration st) (recent_error st) (dialogue st) s")
  then have one: "runs_only s s1"
    by (rule analyzer_ask_runs_only)
  show ?thesis
  proof (cases c)
    case (Inl e)
    then show ?thesis
      using assms ask one by (simp add: analysis_round_def)
  next
    case (Inr code)
    obtain x s2 where ex: "execute_and_parse env decode code s1 = (x, s2)"
      by (cases "execute_and_parse env decode code s1")
    then have "runs_only s1 s2"
      by (rule execute_and_parse_runs_only)
    then have "runs_only s s2"
      using one runs_only_trans by blast
    then show ?thesis
      using assms ask Inr ex one
      by (auto simp add: analysis_round_def Let_def split: if_splits sum.splits payload.splits)
  qed
qed

lemma analysis_loop_runs_only:
  "analysis_loop env decode db mi required st s = (r, st', s') \<Longrightarrow> runs_only s s'"
proof (induction env decode db mi required st s rule: analysis_loop.induct)
  case (1 env decode db mi required st s)
  show ?case
  proof (cases "iteration st < mi")
    case False
    then show ?thesis
      using "1.prems" by (subst (asm) analysis_loop.simps) (simp add: runs_only_refl)
  next
    case True
    obtain x st1 s1 where round:
      "analysis_round env decode db required (st\<lparr>iteration := iteration st + 1\<rparr>) s = (x, st1, s1)"
      by (cases "analysis_round env decode db required (st\<lparr>iteration := iteration st + 1\<rparr>) s") auto
    then have one: "runs_only s s1"
      by (rule analysis_round_runs_only)
    show ?thesis
    proof (cases x)
      case Continue
      then have "analysis_loop env decode db mi required st1 s1 = (r, st', s')"
        using "1.prems" True round by (subst (asm) analysis_loop.simps) simp
      then have "runs_only s1 s'"
        using "1.IH" True round Continue by simp
      then show ?thesis
        using one runs_only_trans by blast
    next
      case Break
      then show ?thesis
        using "1.prems" True round one by (subst (asm) analysis_loop.simps) simp
    next
      case (Escaped e)
      then show ?thesis
        using "1.prems" True round one by (subst (asm) analysis_loop.simps) simp
    qed
  qed
qed

text \<open>
  The session calls of the discovery phase: a start that raised and nothing else, or a
  start, executions, and a shutdown.
\<close>

lemma analyze_schema_calls:
  "\<exists>calls. events (snd (analyze_schema env decode db mi required stamp s0)) = events s0 @ calls
     \<and> (calls = [StartFailed]
        \<or> (\<exists>runs. calls = Started # runs @ [Shutdown] \<and> set runs \<subseteq> {Executed}))"
proof -
  let ?s = "s0\<lparr>kernel := Some False\<rparr>"
  obtain x s1 where start: "session_start env ?s = (x, s1)"
    by (cases "session_start env ?s")
  show ?thesis
  proof (cases x)
    case (Some e)
    then have "events s1 = events s0 @ [StartFailed]"
      using start by (auto simp add: session_start_def split: prod.splits option.splits)
    then show ?thesis
      using start Some by (simp add: analyze_schema_def guarded_discovery_def Let_def)
  next
    case None
    then have ev1: "events s1 = events s0 @ [Started]"
      using start by (auto simp add: session_start_def split: prod.splits option.splits)
    obtain r st s2 where loop: "analysis_loop env decode db mi required analysis_init s1 = (r, st, s2)"
      by (cases "analysis_loop env decode db mi required analysis_init s1") auto
    then have "runs_only s1 s2"
      by (rule analysis_loop_runs_only)
    then obtain runs where "events s2 = events s1 @ runs" and runs: "set runs \<subseteq> {Executed}"
      by (auto simp add: runs_only_def)
    then have "events (session_shutdown s2) = events s0 @ Started # runs @ [Shutdown]"
      using ev1 by (simp add: session_shutdown_def)
    moreover have "snd (analyze_schema env decode db mi required stamp s0) = session_shutdown s2"
      using start None loop by (simp add: analyze_schema_def guarded_discovery_def Let_def)
    ultimately show ?thesis
      using runs by simp
  qed
qed

text \<open>
  The session calls of the execution phase: the last one is a shutdown.  A worker without
  a session object makes a new one and starts it; a worker that has one does not start it.
\<close>

lemma execute_migration_calls:
  "\<exists>calls. events (snd (execute_migration env N describe order tables log0 s0)) = events s0 @ calls
     \<and> (calls = [StartFailed, Shutdown]
        \<or> (\<exists>runs. set runs \<subseteq> {Executed}
              \<and> (calls = Started # runs @ [Shutdown] \<or> (kernel s0 \<noteq> None \<and> calls = runs @ [Shutdown]))))"
proof -
  obtain x s1 where start: "start_kernel env s0 = (x, s1)"
    by (cases "start_kernel env s0")
  show ?thesis
  proof (cases x)
    case (Some e)
    then have "events s1 = events s0 @ [StartFailed] \<and> kernel s1 \<noteq> None"
      using start
      by (auto simp add: start_kernel_def session_start_def split: prod.splits option.splits if_splits)
    then have "events (shutdown_kernel s1) = events s0 @ [StartFailed, Shutdown]"
      by (simp add: shutdown_kernel_def session_shutdown_def)
    then show ?thesis
      using start Some by (simp add: execute_migration_def)
  next
    case None
    then have s1: "kernel s1 \<noteq> None
        \<and> (events s1 = events s0 @ [Started] \<or> (kernel s0 \<noteq> None \<and> events s1 = events s0))"
      using start
      by (auto simp add: start_kernel_def session_start_def split: prod.splits option.splits if_splits)
    let ?m0 = "\<lparr>completed_tasks = [], failed_tasks = [], execution_log = log0\<rparr>"
    show ?thesis
    proof (cases "build_mega_tasks describe order tables")
      case (Inl e)
      have final: "snd (execute_migration env N describe order tables log0 s0) = shutdown_kernel s1"
        using start None Inl by (simp add: execute_migration_def)
      have "events (shutdown_kernel s1) = events s1 @ [Shutdown]"
        using s1 by (simp add: shutdown_kernel_def session_shutdown_def)
      then have "events (shutdown_kernel s1) = events s0 @ Started # [] @ [Shutdown]
          \<or> (kernel s0 \<noteq> None \<and> events (shutdown_kernel s1) = events s0 @ [] @ [Shutdown])"
        using s1 by auto
      moreover have "set ([] :: session_event list) \<subseteq> {Executed}"
        by simp
      ultimately show ?thesis
        unfolding final by blast
    next
      case (Inr tasks)
      obtain r m s2 where loop: "tasks_loop env N tasks ?m0 s1 = (r, m, s2)"
        by (cases "tasks_loop env N tasks ?m0 s1") auto
      then have "runs_only s1 s2"
        by (rule tasks_loop_runs_only)
      then obtain runs where s2: "kernel s2 = kernel s1" "events s2 = events s1 @ runs"
        and runs: "set runs \<subseteq> {Executed}"
        by (auto simp add: runs_only_def)
      have final: "snd (execute_migration env N describe order tables log0 s0) = shutdown_kernel s2"
        using start None Inr loop by (cases r) (simp_all add: execute_migration_def)
      have "events (shutdown_kernel s2) = events s2 @ [Shutdown]"
        using s1 s2 by (simp add: shutdown_kernel_def session_shutdown_def)
      then have "events (shutdown_kernel s2) = events s0 @ Started # runs @ [Shutdown]
          \<or> (kernel s0 \<noteq> None \<and> events (shutdown_kernel s2) = events s0 @ runs @ [Shutdown])"
        using s1 s2 by auto
      then show ?thesis
        using final runs by auto
    qed
  qed
qed

text \<open>
  Claim C9.  Whatever the oracle, the kernel and the decoders do, and however the phase
  ends (\<^verbatim>\<open>analyze_schema\<close> always returns; \<^verbatim>\<open>execute_migration\<close> returns a report or lets an
  exception through), the session calls made during the phase are as follows.  In the
  discovery phase: a call of \<^verbatim>\<open>start\<close> that raised and nothing else, or a successful start,
  then executions, then a shutdown.  In the execution phase the last call is a shutdown,
  after a start that raised, or after a successful start and executions, or, for a worker
  that already had a session object, after executions only.  So a session that was started
  in a phase is shut down before the phase is left.
\<close>

theorem session_released:
  "(\<exists>calls. events (snd (analyze_schema env decode db max_iterations required stamp s0)) = events s0 @ calls
      \<and> (calls = [StartFailed]
         \<or> (\<exists>runs. calls = Started # runs @ [Shutdown] \<and> set runs \<subseteq> {Executed})))
   \<and> (\<exists>calls. events (snd (execute_migration env max_attempts describe order tables log0 s0)) = events s0 @ calls
      \<and> (calls = [StartFailed, Shutdown]
         \<or> (\<exists>runs. set runs \<subseteq> {Executed}
               \<and> (calls = Started # runs @ [Shutdown]
                  \<or> (kernel s0 \<noteq> None \<and> calls = runs @ [Shutdown])))))"
  using analyze_schema_calls execute_migration_calls by (rule conjI)

text \<open>
  The theorem at a run of each phase in the discovery world, from a state without session:
  in both the session is started, and the last session call is the shutdown.
\<close>

theorem session_released_witness:
  "Started \<in> set (events (snd (analyze_schema outage_env orders_decode ''shop'' 10 2 ''20240101_120000'' fresh)))
   \<and> last (events (snd (analyze_schema outage_env orders_decode ''shop'' 10 2 ''20240101_120000'' fresh))) = Shutdown
   \<and> Started \<in> set (events (snd (execute_migration outage_env executor_max_attempts (\<lambda>task order tables. task) [] [] [] fresh)))
   \<and> last (events (snd (execute_migration outage_env executor_max_attempts (\<lambda>task order tables. task) [] [] [] fresh))) = Shutdown"
proof -
  let ?a = "events (snd (analyze_schema outage_env orders_decode ''shop'' 10 2 ''20240101_120000'' fresh))"
  let ?b = "events (snd (execute_migration outage_env executor_max_attempts (\<lambda>task order tables. task) [] [] [] fresh))"
  have a: "Started \<in> set ?a"
    by code_simp
  have b: "Started \<in> set ?b"
    by code_simp
  have none: "events fresh = [] \<and> kernel fresh = None"
    by (simp add: fresh_def)
  note shape = session_released [of outage_env orders_decode "''shop''" 10 2 "''20240101_120000''" fresh
      executor_max_attempts "\<lambda>task order tables. task" "[]" "[]" "[]"]
  from shape a none have "last ?a = Shutdown"
    by auto
  moreover from shape b none have "last ?b = Shutdown"
    by auto
  ultimately show ?thesis
    using a b by simp
qed

text \<open>
  Claim C10.  If an exception reaches the outer handler of \<^verbatim>\<open>analyze_schema\<close> (the session
  did not start, or an exception left the loop: the oracle raised, or what the kernel
  printed was not an object), then whatever tables and relationships the loop had found
  (\<open>metadata st\<close>, \<open>relationships st\<close>), the result has \<^verbatim>\<open>success\<close> and \<^verbatim>\<open>satisfied\<close> false and
  no report file; \<^verbatim>\<open>iterations\<close> is the number of rounds begun.
\<close>

theorem analyze_schema_escape:
  assumes "guarded_discovery env decode db max_iterations required s0 = (Some e, st, session_started, s)"
  shows "fst (analyze_schema env decode db max_iterations required stamp s0) =
     \<lparr>res_success = False, analysis_file = None, schema_file = None,
      iterations = iteration st, res_satisfied = False\<rparr>"
  using assms by (simp add: analyze_schema_def analysis_report_def discard_def Let_def)

text \<open>
  The theorem at a run in the discovery world: the first round finds the table \<open>orders\<close>,
  the oracle raises in the second round, and the result reports no table and no file.
\<close>

theorem analyze_schema_escape_witness:
  "\<exists>st session_started s.
     guarded_discovery outage_env orders_decode ''shop'' 10 2 fresh =
       (Some (UpstreamError ''503 Service Unavailable''), st, session_started, s)
     \<and> metadata st = [orders]
     \<and> fst (analyze_schema outage_env orders_decode ''shop'' 10 2 ''20240101_120000'' fresh) =
         \<lparr>res_success = False, analysis_file = None, schema_file = None,
          iterations = 2, res_satisfied = False\<rparr>"
proof -
  obtain x st session_started s where
    run: "guarded_discovery outage_env orders_decode ''shop'' 10 2 fresh = (x, st, session_started, s)"
    by (cases "guarded_discovery outage_env orders_decode ''shop'' 10 2 fresh") auto
  have "fst (guarded_discovery outage_env orders_decode ''shop'' 10 2 fresh) =
      Some (UpstreamError ''503 Service Unavailable'')"
    by code_simp
  then have x: "x = Some (UpstreamError ''503 Service Unavailable'')"
    using run by simp
  have "metadata (fst (snd (guarded_discovery outage_env orders_decode ''shop'' 10 2 fresh))) = [orders]"
    by code_simp
  then have found: "metadata st = [orders]"
    using run by simp
  have "iteration (fst (snd (guarded_discovery outage_env orders_decode ''shop'' 10 2 fresh))) = 2"
    by code_simp
  then have rounds: "iteration st = 2"
    using run by simp
  have "fst (analyze_schema outage_env orders_decode ''shop'' 10 2 ''20240101_120000'' fresh) =
     \<lparr>res_success = False, analysis_file = None, schema_file = None,
      iterations = iteration st, res_satisfied = False\<rparr>"
    using run [unfolded x] by (rule analyze_schema_escape)
  then show ?thesis
    using run x found rounds by simp
qed

section \<open>Properties of the requests\<close>

lemma last_n_length: "length (last_n n xs) \<le> n"
  by (simp add: last_n_def)

lemma worker_messages_shape:
  assumes "k \<noteq> 1" and "worker_messages env td k le lo conv = Inr msgs"
  shows "\<exists>request. msgs = \<lparr>role = ''system'', content = system_prompt env td\<rparr> # worker_window conv @ request
           \<and> length request \<le> 1"
  using assms by (auto simp add: worker_messages_def Let_def split: if_splits sum.splits)

lemma analyzer_messages_shape:
  assumes "n \<noteq> 1"
  shows "\<exists>request. analyzer_messages env db n err turns =
           \<lparr>role = ''system'', content = system_prompt env db\<rparr> # analyzer_window turns @ [request]"
  using assms by (simp add: analyzer_messages_def Let_def)

lemma retry_loop_first:
  "retry_loop create retries (a # rest) messages rc w = (r, w') \<Longrightarrow>
     \<exists>x w1. create w messages = (x, w1)"
  by (cases "create w messages") simp

lemma send_instruction_history:
  assumes "send_instruction env p instruction w = (Inr reply, p', w')"
  shows "history p' = history p @ [\<lparr>role = ''user'', content = instruction\<rparr>,
                                    \<lparr>role = ''assistant'', content = reply\<rparr>]"
  using assms by (auto simp add: send_instruction_def Let_def split: prod.splits sum.splits)

text \<open>In the recording world every instruction is answered at the first request.\<close>

lemma send_instruction_recording:
  assumes "0 < max_retries p"
  shows "send_instruction recording_env p instruction w =
     (Inr sample_code,
      p\<lparr>history := history p @ [\<lparr>role = ''user'', content = instruction\<rparr>,
                                 \<lparr>role = ''assistant'', content = sample_code\<rparr>]\<rparr>,
      w @ [length (history p) + 2])"
proof -
  have range: "[1..max_retries p] = 1 # [2..max_retries p]"
    using assms by (simp add: upto_rec1)
  have full: "strip sample_code \<noteq> []"
    by code_simp
  show ?thesis
    using full
    by (simp add: send_instruction_def range recording_env_def planner_messages_def Let_def)
qed

lemma instruct_recording:
  "0 < max_retries p \<Longrightarrow>
     instruct recording_env p instructions w =
       (None, fst (snd (instruct recording_env p instructions w)),
        w @ map (\<lambda>k. length (history p) + 2 * k + 2) [0..<length instructions])
     \<and> length (history (fst (snd (instruct recording_env p instructions w)))) =
         length (history p) + 2 * length instructions
     \<and> max_retries (fst (snd (instruct recording_env p instructions w))) = max_retries p"
proof (induction instructions arbitrary: p w)
  case Nil
  then show ?case by simp
next
  case (Cons i rest)
  let ?p = "p\<lparr>history := history p @ [\<lparr>role = ''user'', content = i\<rparr>,
                                 \<lparr>role = ''assistant'', content = sample_code\<rparr>]\<rparr>"
  let ?w = "w @ [length (history p) + 2]"
  have step: "instruct recording_env p (i # rest) w = instruct recording_env ?p rest ?w"
    using Cons.prems by (simp add: send_instruction_recording)
  have pos: "0 < max_retries ?p"
    using Cons.prems by simp
  note ih = Cons.IH [OF pos, of ?w]
  have shift: "map (\<lambda>k. length (history p) + 2 * k + 2) [0..<length (i # rest)] =
      (length (history p) + 2) # map (\<lambda>k. length (history ?p) + 2 * k + 2) [0..<length rest]"
    by (simp add: upt_conv_Cons map_Suc_upt [symmetric] del: upt_Suc)
  show ?case
    unfolding step shift using ih by simp
qed

text \<open>
  Claim C8, as the code has it.  A request of the worker built after the first attempt is
  the system prompt, the last 4 turns of the conversation and at most one more message (the
  error context); a request of the analyzer built after the first round is the system
  prompt, the last 8 turns and one more message.  So both carry a bounded number of prior
  turns, whatever the length of the conversation.  A request of a planner is the system
  prompt, its whole history and the instruction, and each instruction that is answered adds
  two turns to the history.
\<close>

theorem request_window:
  "(k \<noteq> 1 \<and> worker_messages env task_description k last_err last_out turns = Inr messages \<longrightarrow>
      (\<exists>request. messages = \<lparr>role = ''system'', content = system_prompt env task_description\<rparr>
                     # worker_window turns @ request \<and> length request \<le> 1)
      \<and> worker_window turns = drop (length turns - 4) turns
      \<and> length (worker_window turns) \<le> 4)
   \<and> (n \<noteq> 1 \<longrightarrow>
      (\<exists>request. analyzer_messages env db n err turns =
         \<lparr>role = ''system'', content = system_prompt env db\<rparr> # analyzer_window turns @ [request])
      \<and> analyzer_window turns = drop (length turns - 8) turns
      \<and> length (analyzer_window turns) \<le> 8)
   \<and> planner_messages p instruction =
        \<lparr>role = ''system'', content = planner_prompt p\<rparr> # history p
          @ [\<lparr>role = ''user'', content = instruction\<rparr>]
   \<and> (send_instruction env p instruction w = (Inr reply, p', w') \<longrightarrow>
        history p' = history p @ [\<lparr>role = ''user'', content = instruction\<rparr>,
                                   \<lparr>role = ''assistant'', content = reply\<rparr>])"
proof (intro conjI impI)
  assume "k \<noteq> 1 \<and> worker_messages env task_description k last_err last_out turns = Inr messages"
  then show "\<exists>request. messages = \<lparr>role = ''system'', content = system_prompt env task_description\<rparr>
                     # worker_window turns @ request \<and> length request \<le> 1"
    using worker_messages_shape by blast
next
  show "worker_window turns = drop (length turns - 4) turns"
    by (simp add: worker_window_def last_n_def)
next
  show "length (worker_window turns) \<le> 4"
    by (simp add: worker_window_def last_n_length)
next
  assume "n \<noteq> 1"
  then show "\<exists>request. analyzer_messages env db n err turns =
         \<lparr>role = ''system'', content = system_prompt env db\<rparr> # analyzer_window turns @ [request]"
    by (rule analyzer_messages_shape)
next
  show "analyzer_window turns = drop (length turns - 8) turns"
    by (simp add: analyzer_window_def last_n_def)
next
  show "length (analyzer_window turns) \<le> 8"
    by (simp add: analyzer_window_def last_n_length)
next
  show "planner_messages p instruction =
        \<lparr>role = ''system'', content = planner_prompt p\<rparr> # history p
          @ [\<lparr>role = ''user'', content = instruction\<rparr>]"
    by (simp add: planner_messages_def)
next
  assume "send_instruction env p instruction w = (Inr reply, p', w')"
  then show "history p' = history p @ [\<lparr>role = ''user'', content = instruction\<rparr>,
                                   \<lparr>role = ''assistant'', content = reply\<rparr>]"
    by (rule send_instruction_history)
qed

text \<open>
  The theorem at requests built from ten numbered turns: the worker's fifth attempt carries
  the turns 6 to 9, the analyzer's third round the turns 2 to 9; and the first instruction
  to a new planner, answered at once, leaves a history of two turns.
\<close>

theorem request_window_witness:
  "(\<exists>messages. worker_messages recording_env ''task'' 5 (Some (JStr ''boom'')) None ten_turns = Inr messages
      \<and> (\<exists>request. messages = \<lparr>role = ''system'', content = ''task''\<rparr> # worker_window ten_turns @ request
            \<and> length request \<le> 1))
   \<and> worker_window ten_turns = map turn [''t6'', ''t7'', ''t8'', ''t9'']
   \<and> (\<exists>request. analyzer_messages recording_env ''shop'' 3 None ten_turns =
         \<lparr>role = ''system'', content = ''shop''\<rparr> # analyzer_window ten_turns @ [request])
   \<and> analyzer_window ten_turns = map turn [''t2'', ''t3'', ''t4'', ''t5'', ''t6'', ''t7'', ''t8'', ''t9'']
   \<and> (\<exists>p'. send_instruction recording_env alpha ''plan'' [] = (Inr sample_code, p', [2])
         \<and> history p' = [\<lparr>role = ''user'', content = ''plan''\<rparr>,
                          \<lparr>role = ''assistant'', content = sample_code\<rparr>])"
proof -
  have "case worker_messages recording_env ''task'' 5 (Some (JStr ''boom'')) None ten_turns of
          Inl e \<Rightarrow> False | Inr messages \<Rightarrow> True"
    by code_simp
  then obtain messages where
    built: "worker_messages recording_env ''task'' 5 (Some (JStr ''boom'')) None ten_turns = Inr messages"
    by (cases "worker_messages recording_env ''task'' 5 (Some (JStr ''boom'')) None ten_turns") auto
  have later: "(5::int) \<noteq> 1 \<and> (3::int) \<noteq> 1"
    by simp
  have prompts: "system_prompt recording_env ''task'' = ''task'' \<and> system_prompt recording_env ''shop'' = ''shop''"
    by (simp add: recording_env_def)
  have pos: "0 < max_retries alpha"
    by (simp add: alpha_def)
  have sent: "send_instruction recording_env alpha ''plan'' [] =
      (Inr sample_code,
       alpha\<lparr>history := history alpha @ [\<lparr>role = ''user'', content = ''plan''\<rparr>,
                                         \<lparr>role = ''assistant'', content = sample_code\<rparr>]\<rparr>,
       [] @ [length (history alpha) + 2])"
    using pos by (rule send_instruction_recording)
  have empty: "history alpha = []"
    by (simp add: alpha_def)
  note window = request_window [where k = 5 and env = recording_env and task_description = "''task''"
      and last_err = "Some (JStr ''boom'')" and last_out = None and turns = ten_turns
      and messages = messages and n = 3 and db = "''shop''" and err = None
      and p = alpha and instruction = "''plan''" and w = "[]" and reply = sample_code
      and p' = "alpha\<lparr>history := history alpha @ [\<lparr>role = ''user'', content = ''plan''\<rparr>,
                                         \<lparr>role = ''assistant'', content = sample_code\<rparr>]\<rparr>"
      and w' = "[2]"]
  have four: "drop (length ten_turns - 4) ten_turns = map turn [''t6'', ''t7'', ''t8'', ''t9'']"
    by (simp add: ten_turns_def)
  have eight: "drop (length ten_turns - 8) ten_turns =
      map turn [''t2'', ''t3'', ''t4'', ''t5'', ''t6'', ''t7'', ''t8'', ''t9'']"
    by (simp add: ten_turns_def)
  from window built later have a:
    "\<exists>request. messages = \<lparr>role = ''system'', content = system_prompt recording_env ''task''\<rparr>
        # worker_window ten_turns @ request \<and> length request \<le> 1"
    by blast
  from window later have b: "worker_window ten_turns = drop (length ten_turns - 4) ten_turns"
    using built by blast
  from window later have c:
    "\<exists>request. analyzer_messages recording_env ''shop'' 3 None ten_turns =
         \<lparr>role = ''system'', content = system_prompt recording_env ''shop''\<rparr> # analyzer_window ten_turns @ [request]"
    by blast
  from window later have d: "analyzer_window ten_turns = drop (length ten_turns - 8) ten_turns"
    by blast
  from window sent empty have e:
    "history (alpha\<lparr>history := history alpha @ [\<lparr>role = ''user'', content = ''plan''\<rparr>,
                                         \<lparr>role = ''assistant'', content = sample_code\<rparr>]\<rparr>) =
       history alpha @ [\<lparr>role = ''user'', content = ''plan''\<rparr>,
                        \<lparr>role = ''assistant'', content = sample_code\<rparr>]"
    by simp
  show ?thesis
  proof (intro conjI)
    show "\<exists>messages. worker_messages recording_env ''task'' 5 (Some (JStr ''boom'')) None ten_turns = Inr messages
      \<and> (\<exists>request. messages = \<lparr>role = ''system'', content = ''task''\<rparr> # worker_window ten_turns @ request
            \<and> length request \<le> 1)"
      using built a prompts by auto
    show "worker_window ten_turns = map turn [''t6'', ''t7'', ''t8'', ''t9'']"
      using b four by simp
    show "\<exists>request. analyzer_messages recording_env ''shop'' 3 None ten_turns =
         \<lparr>role = ''system'', content = ''shop''\<rparr> # analyzer_window ten_turns @ [request]"
      using c prompts by auto
    show "analyzer_window ten_turns = map turn [''t2'', ''t3'', ''t4'', ''t5'', ''t6'', ''t7'', ''t8'', ''t9'']"
      using d eight by simp
    show "\<exists>p'. send_instruction recording_env alpha ''plan'' [] = (Inr sample_code, p', [2])
         \<and> history p' = [\<lparr>role = ''user'', content = ''plan''\<rparr>,
                          \<lparr>role = ''assistant'', content = sample_code\<rparr>]"
      using sent empty by simp
  qed
qed

text \<open>
  The claim as the specification has it fails for the planner.  In the recording world six
  instructions to one planner produce requests of 2, 4, 6, 8, 10 and 12 messages: the sixth
  carries ten prior turns.  And for every bound \<open>K\<close> there is a sequence of instructions,
  all answered, whose last request carries more than \<open>K\<close> prior turns.
\<close>

theorem planner_history_counterexample:
  "snd (snd (instruct recording_env alpha
       [''plan'', ''revise'', ''revise'', ''revise'', ''revise'', ''revise''] [])) = [2, 4, 6, 8, 10, 12]
   \<and> (\<forall>K. \<exists>instructions.
         fst (instruct recording_env alpha instructions []) = None
         \<and> K + 2 < last (snd (snd (instruct recording_env alpha instructions []))))"
proof (intro conjI allI)
  show "snd (snd (instruct recording_env alpha
       [''plan'', ''revise'', ''revise'', ''revise'', ''revise'', ''revise''] [])) = [2, 4, 6, 8, 10, 12]"
    by code_simp
next
  fix K :: nat
  let ?is = "replicate (Suc (Suc K)) ''revise''"
  have pos: "0 < max_retries alpha"
    by (simp add: alpha_def)
  have empty: "length (history alpha) = 0"
    by (simp add: alpha_def)
  note run = instruct_recording [OF pos, of ?is "[]"]
  from run have none: "fst (instruct recording_env alpha ?is []) = None"
    by (metis fst_conv)
  from run have "snd (snd (instruct recording_env alpha ?is [])) =
      [] @ map (\<lambda>k. length (history alpha) + 2 * k + 2) [0..<length ?is]"
    by (metis snd_conv)
  then have "last (snd (snd (instruct recording_env alpha ?is []))) = 2 * Suc K + 2"
    using empty by simp
  then have "K + 2 < last (snd (snd (instruct recording_env alpha ?is [])))"
    by simp
  with none show "\<exists>instructions.
         fst (instruct recording_env alpha instructions []) = None
         \<and> K + 2 < last (snd (snd (instruct recording_env alpha instructions [])))"
    by blast
qed

end
